theory Spec2Isabelle
  imports Main
begin

section \<open>The cluster lock client of \<^verbatim>\<open>src/lib/cmgr/cmgr.c\<close>\<close>

text \<open>
  A shallow embedding of the client side of the cluster lock protocol: the request
  header (\<^verbatim>\<open>build_header\<close>), one request and reply over the daemon's socket
  (\<^verbatim>\<open>send_request\<close>), the unpacking of a reply into an array of per-node
  responses (\<^verbatim>\<open>cluster_request\<close>), its deallocation
  (\<^verbatim>\<open>cluster_free_request\<close>), the lock and unlock of a scope
  (\<^verbatim>\<open>lock_for_cluster\<close>, \<^verbatim>\<open>unlock_for_cluster\<close>) and the
  entry points for the global lock, a volume group and a logical volume.

  The C program works on process-wide variables, on the heap and on a socket.  The model
  passes one record \<open>world\<close> through every function: the static variables, \<open>errno\<close>,
  the heap, a trace of the calls made to the outside (socket, allocator, log, activation
  layer), and the scripts that say what the outside answers (what \<open>connect\<close>,
  \<open>write\<close>, \<open>read\<close> and \<open>malloc\<close> return).  A function returns
  \<open>Returns r w\<close> with its C return value, or \<open>Undefined f w\<close> where the C program
  reads memory whose content the language does not define (freed, never written, or
  outside an allocation).
\<close>

subsection \<open>C strings and constants\<close>

text \<open>
  A \<^verbatim>\<open>char *\<close> argument holding a C string is a \<open>string\<close>: the characters
  before the terminator.  A pointer that may be \<^verbatim>\<open>NULL\<close> and holds a string
  is a \<open>string option\<close>.  Byte buffers are \<open>char list\<close>s with the terminators
  written out.
\<close>

type_synonym ptr = nat

abbreviation NULL :: ptr where "NULL \<equiv> 0"

abbreviation NUL :: char where "NUL \<equiv> CHR 0x00"

text \<open>The values of \<^verbatim>\<open>errno.h\<close> on Linux, and \<^verbatim>\<open>PIPE_BUF\<close>.\<close>

abbreviation ENOENT :: int where "ENOENT \<equiv> 2"
abbreviation ENOMEM :: int where "ENOMEM \<equiv> 12"
abbreviation EINVAL :: int where "EINVAL \<equiv> 22"
abbreviation ENOTCONN :: int where "ENOTCONN \<equiv> 107"
abbreviation EHOSTDOWN :: int where "EHOSTDOWN \<equiv> 112"
abbreviation PIPE_BUF :: nat where "PIPE_BUF \<equiv> 4096"

text \<open>\<^verbatim>\<open>#define LVM_SIGNATURE 0x434C564D\<close>\<close>

abbreviation LVM_SIGNATURE :: int where "LVM_SIGNATURE \<equiv> 0x434C564D"

text \<open>\<^verbatim>\<open>strlen\<close> on a buffer: the bytes before the first NUL; \<open>None\<close> when the
  buffer holds no NUL, where the C function reads past its end.\<close>

definition c_strlen :: "char list \<Rightarrow> nat option" where
  "c_strlen bs = (if NUL \<in> set bs then Some (length (takeWhile (\<lambda>c. c \<noteq> NUL) bs)) else None)"

text \<open>\<^verbatim>\<open>*(int *)inptr\<close>: four bytes, least significant first, read as a signed
  32-bit integer; \<open>None\<close> when fewer than four bytes are left.\<close>

definition read_int :: "char list \<Rightarrow> int option" where
  "read_int bs =
     (case bs of
        b0 # b1 # b2 # b3 # _ \<Rightarrow>
          (let v = of_char b0 + 256 * of_char b1 + 65536 * of_char b2 + 16777216 * of_char b3
           in Some (if v < 2147483648 then v else v - 4294967296))
      | _ \<Rightarrow> None)"

subsection \<open>The request header\<close>

text \<open>
  \<^verbatim>\<open>clvm.h\<close> is not among the sources.  The command codes and the flag bit are
  therefore kept symbolic: a command is one of the four codes the file uses, and the
  \<^verbatim>\<open>flags\<close> bitset is the set of flags that are on.  The field \<open>h_node\<close> is the
  byte area that starts at \<^verbatim>\<open>head->node\<close>: the node name with its terminator,
  then whatever is copied behind it.
\<close>

datatype clvmd_cmd =
  CLVMD_CMD_LOCK | CLVMD_CMD_LOCK_SUSPEND | CLVMD_CMD_UNLOCK | CLVMD_CMD_UNLOCK_RESUME

datatype clvmd_flag = CLVMD_FLAG_LOCAL

record clvm_header =
  h_cmd :: clvmd_cmd
  h_status :: int
  h_flags :: "clvmd_flag set"
  h_clientid :: int
  h_arglen :: int
  h_node :: "char list"

text \<open>\<^verbatim>\<open>build_header(head, cmd, node, data, len)\<close>, lines 144-175.\<close>

definition build_header :: "clvmd_cmd \<Rightarrow> string option \<Rightarrow> char list \<Rightarrow> int \<Rightarrow> clvm_header" where
  "build_header cmd node data len =
     (let head = \<lparr>h_cmd = cmd, h_status = 0, h_flags = {}, h_clientid = 0,
                  h_arglen = len, h_node = []\<rparr>
      in case node of
           Some n \<Rightarrow>
             if n = ''*'' then head\<lparr>h_node := [NUL]\<rparr>
             else if n = ''.'' then head\<lparr>h_node := [NUL], h_flags := {CLVMD_FLAG_LOCAL}\<rparr>
             else head\<lparr>h_node := n @ [NUL]\<rparr>
         | None \<Rightarrow> head\<lparr>h_node := [NUL]\<rparr>)"

text \<open>The node name a header carries on the wire: the bytes of \<open>h_node\<close> before the
  first NUL.\<close>

definition wire_node :: "clvm_header \<Rightarrow> char list" where
  "wire_node head = takeWhile (\<lambda>c. c \<noteq> NUL) (h_node head)"

text \<open>
  The argument block of a lock or unlock request, lines 339-352 and 405-418:
  \<^verbatim>\<open>len = strlen(name)+2; strcpy(args+1, name); args[0] = scope\<close>, and for a
  \<^verbatim>\<open>NULL\<close> name \<^verbatim>\<open>len = 2; args[1] = '\0'; args[0] = scope\<close>.
  The result is \<open>(len, args)\<close>.
\<close>

definition lock_args :: "char \<Rightarrow> string option \<Rightarrow> int \<times> char list" where
  "lock_args scope name =
     (case name of
        Some n \<Rightarrow> (int (length n) + 2, scope # n @ [NUL])
      | None \<Rightarrow> (2, [scope, NUL]))"

subsection \<open>Responses, the heap and the world\<close>

text \<open>\<^verbatim>\<open>lvm_response_t\<close>: node name, status, the response string's buffer and
  its length.\<close>

record lvm_response =
  r_node :: string
  r_status :: int
  r_response :: ptr
  r_len :: int

text \<open>
  What an allocation holds: the raw reply of the daemon; an array of responses with its
  two leading \<^verbatim>\<open>int\<close>s (the signature and the count), a slot being \<open>None\<close>
  until it is written; or the bytes of one response string.  A pointer to an array
  stands for the address of its first slot, two \<^verbatim>\<open>int\<close>s behind the start of
  the allocation.
\<close>

datatype obj =
  Reply_buffer
  | Response_array int int "lvm_response option list"
  | Response_string "char list"

text \<open>The heap: allocation \<open>p\<close> is entry \<open>p - 1\<close>, \<open>None\<close> once freed.
  Addresses are not reused.\<close>

definition lookup :: "obj option list \<Rightarrow> ptr \<Rightarrow> obj option" where
  "lookup h p = (if p = NULL \<or> length h < p then None else h ! (p - 1))"

datatype log_msg =
  Not_running_on_node string
  | Cluster_command_to_node_failed string int
  | Unlock_on_node_failed string int
  | Left_locked string int
  | Cluster_command_failed int

datatype stderr_msg =
  Cant_create_local_socket | Error_writing_to_CLVMD | Error_reading_CLVMD | EOF_reading_CLVMD

record volume_group =
  vg_name :: "string option"

record logical_volume =
  lv_name :: "string option"

datatype event =
  Ev_socket
  | Ev_connect nat
  | Ev_close nat
  | Ev_write int clvm_header
  | Ev_read int
  | Ev_free ptr
  | Ev_stderr stderr_msg
  | Ev_log log_msg
  | Ev_suspend_lvs_in_vg volume_group int
  | Ev_activate_lvs_in_vg volume_group
  | Ev_lv_suspend logical_volume int
  | Ev_lv_reactivate logical_volume

text \<open>
  The scripts of the outside.  Opening the socket: \<^verbatim>\<open>socket\<close> fails, or it
  returns a descriptor and \<^verbatim>\<open>connect\<close> fails with an \<open>errno\<close>, or both
  succeed.  \<open>close_errno\<close> is the \<open>errno\<close> a failing \<^verbatim>\<open>close\<close> leaves
  (\<open>None\<close>: it succeeds).  A \<^verbatim>\<open>write\<close> sends everything, or returns a
  short count, or fails with an \<open>errno\<close>.  The read of the reply's fixed header fails, meets end of file, or
  delivers the header, of which the program uses the status, the argument length and
  the first argument byte (a read of positive length is taken to deliver the whole
  header, as the program takes it).  Every later read of the same reply fails or
  delivers bytes, none at end of file.
\<close>

datatype open_script = Socket_fails int | Connect_fails nat int | Connects nat

datatype write_script = Write_all | Write_short | Write_fails int

datatype hdr_read = Hdr_fails int | Hdr_eof | Hdr int int char

datatype body_read = Body_fails int | Body_bytes "char list"

record world =
  clvmd_sock :: int
  errno :: int
  num_responses :: int
  response :: ptr
  clustered :: int
  suspended :: int
  heap :: "obj option list"
  trace :: "event list"
  opens :: "open_script list"
  close_errno :: "int option"
  writes :: "write_script list"
  replies :: "(hdr_read \<times> body_read list) list"
  mallocs :: "bool list"

text \<open>The reads C leaves undefined: through a pointer that is not to a live response
  array, behind the end of an array or a buffer, and of memory that was never
  written.\<close>

datatype fault = Read_dead_memory | Read_out_of_bounds | Read_uninitialised

datatype 'a outcome = Returns 'a world | Undefined fault world

text \<open>\<^verbatim>\<open>malloc\<close>: the script says whether it succeeds (it does once the script
  is used up); the new allocation gets the next address.\<close>

definition malloc :: "obj \<Rightarrow> world \<Rightarrow> ptr \<times> world" where
  "malloc ob w =
     (case mallocs w of
        False # ms \<Rightarrow> (NULL, w\<lparr>mallocs := ms\<rparr>)
      | True # ms \<Rightarrow> (Suc (length (heap w)), w\<lparr>heap := heap w @ [Some ob], mallocs := ms\<rparr>)
      | [] \<Rightarrow> (Suc (length (heap w)), w\<lparr>heap := heap w @ [Some ob]\<rparr>))"

text \<open>\<^verbatim>\<open>free\<close>: nothing for \<^verbatim>\<open>NULL\<close>; otherwise the call is recorded and
  the allocation leaves the heap.  A call with an address that is not allocated is
  recorded like any other.\<close>

definition free :: "ptr \<Rightarrow> world \<Rightarrow> world" where
  "free p w =
     (if p = NULL then w
      else w\<lparr>heap := (heap w)[p - 1 := None], trace := trace w @ [Ev_free p]\<rparr>)"

text \<open>A write into an allocation that is live.\<close>

definition store :: "ptr \<Rightarrow> obj \<Rightarrow> world \<Rightarrow> world" where
  "store p ob w = w\<lparr>heap := (heap w)[p - 1 := Some ob]\<rparr>"

text \<open>\<^verbatim>\<open>perror\<close>, \<^verbatim>\<open>fprintf(stderr, ...)\<close> and \<^verbatim>\<open>log_verbose\<close>
  are taken to leave \<open>errno\<close> as it is.\<close>

definition to_stderr :: "stderr_msg \<Rightarrow> world \<Rightarrow> world" where
  "to_stderr m w = w\<lparr>trace := trace w @ [Ev_stderr m]\<rparr>"

definition log_verbose :: "log_msg \<Rightarrow> world \<Rightarrow> world" where
  "log_verbose m w = w\<lparr>trace := trace w @ [Ev_log m]\<rparr>"

text \<open>\<^verbatim>\<open>response[i]\<close> for an array pointer and an index.\<close>

definition read_entry :: "ptr \<Rightarrow> int \<Rightarrow> world \<Rightarrow> fault + lvm_response" where
  "read_entry p i w =
     (case lookup (heap w) p of
        Some (Response_array sg n slots) \<Rightarrow>
          if 0 \<le> i \<and> nat i < length slots then
            (case slots ! nat i of
               Some e \<Rightarrow> Inr e
             | None \<Rightarrow> Inl Read_uninitialised)
          else Inl Read_out_of_bounds
      | _ \<Rightarrow> Inl Read_dead_memory)"

subsection \<open>Freeing a response array\<close>

text \<open>The loop of \<^verbatim>\<open>cluster_free_request\<close>, lines 306-309:
  \<^verbatim>\<open>for (i = 0; i<num; i++) free(response[i].response)\<close>.\<close>

function free_loop :: "ptr \<Rightarrow> int \<Rightarrow> int \<Rightarrow> world \<Rightarrow> unit outcome" where
  "free_loop resp i num w =
     (if i < num then
        (case read_entry resp i w of
           Inl f \<Rightarrow> Undefined f w
         | Inr e \<Rightarrow> free_loop resp (i + 1) num (free (r_response e) w))
      else Returns () w)"
  by pat_completeness auto
termination
  by (relation "measure (\<lambda>(resp, i, num, w). nat (num - i))") auto

declare free_loop.simps [simp del]

text \<open>\<^verbatim>\<open>cluster_free_request(response)\<close>, lines 292-313.  The two
  \<^verbatim>\<open>int\<close>s in front of the array are read from the allocation the pointer
  belongs to.\<close>

definition cluster_free_request :: "ptr \<Rightarrow> world \<Rightarrow> int outcome" where
  "cluster_free_request resp w =
     (if resp = NULL then Returns (- 1) (w\<lparr>errno := EINVAL\<rparr>)
      else
        (case lookup (heap w) resp of
           Some (Response_array sg num slots) \<Rightarrow>
             if sg \<noteq> LVM_SIGNATURE then Returns (- 1) (w\<lparr>errno := EINVAL\<rparr>)
             else
               (case free_loop resp 0 num w of
                  Undefined f w' \<Rightarrow> Undefined f w'
                | Returns u w' \<Rightarrow> Returns 0 (free resp w'))
         | _ \<Rightarrow> Undefined Read_dead_memory w))"

subsection \<open>The socket\<close>

text \<open>\<^verbatim>\<open>open_local_sock()\<close>, lines 51-78.  Once the script is used up no
  descriptor is left (\<^verbatim>\<open>EMFILE\<close>, 24).  The \<^verbatim>\<open>fcntl\<close> call and the
  address are left out.\<close>

definition open_local_sock :: "world \<Rightarrow> int \<times> world" where
  "open_local_sock w =
     (let (sc, w1) = (case opens w of [] \<Rightarrow> (Socket_fails 24, w)
                                    | s # ss \<Rightarrow> (s, w\<lparr>opens := ss\<rparr>))
      in case sc of
           Socket_fails e \<Rightarrow>
             (- 1, to_stderr Cant_create_local_socket
                     (w1\<lparr>trace := trace w1 @ [Ev_socket], errno := e\<rparr>))
         | Connect_fails fd e \<Rightarrow>
             (let w2 = w1\<lparr>trace := trace w1 @ [Ev_socket, Ev_connect fd], errno := e\<rparr>;
                  saved_errno = errno w2;
                  w3 = w2\<lparr>trace := trace w2 @ [Ev_close fd],
                          errno := (case close_errno w2 of None \<Rightarrow> errno w2 | Some c \<Rightarrow> c)\<rparr>
              in (- 1, w3\<lparr>errno := saved_errno\<rparr>))
         | Connects fd \<Rightarrow>
             (int fd, w1\<lparr>trace := trace w1 @ [Ev_socket, Ev_connect fd]\<rparr>))"

text \<open>\<^verbatim>\<open>write(clvmd_sock, inbuf, inlen) != inlen\<close>: whether everything was
  written.  The buffer is the header with the bytes behind it.\<close>

definition sock_write :: "clvm_header \<Rightarrow> world \<Rightarrow> bool \<times> world" where
  "sock_write inbuf w =
     (let w1 = w\<lparr>trace := trace w @ [Ev_write (clvmd_sock w) inbuf]\<rparr>
      in case writes w of
           [] \<Rightarrow> (True, w1)
         | Write_all # rest \<Rightarrow> (True, w1\<lparr>writes := rest\<rparr>)
         | Write_short # rest \<Rightarrow> (False, w1\<lparr>writes := rest\<rparr>)
         | Write_fails e # rest \<Rightarrow> (False, w1\<lparr>writes := rest, errno := e\<rparr>))"

text \<open>The read of the fixed header: the next reply of the script (end of file once
  the script is used up), with the reads that follow it.\<close>

definition read_header :: "world \<Rightarrow> hdr_read \<times> body_read list \<times> world" where
  "read_header w =
     (let w1 = w\<lparr>trace := trace w @ [Ev_read (clvmd_sock w)]\<rparr>
      in case replies w of
           [] \<Rightarrow> (Hdr_eof, [], w1)
         | (Hdr_fails e, body) # rest \<Rightarrow> (Hdr_fails e, body, w1\<lparr>replies := rest, errno := e\<rparr>)
         | (h, body) # rest \<Rightarrow> (h, body, w1\<lparr>replies := rest\<rparr>))"

text \<open>\<^verbatim>\<open>read(clvmd_sock, buf, n)\<close> behind the header: the length returned, the
  bytes delivered and what is left of the script.  A chunk longer than \<open>n\<close> is
  delivered in parts.\<close>

definition sock_read :: "nat \<Rightarrow> body_read list \<Rightarrow> world \<Rightarrow> int \<times> char list \<times> body_read list \<times> world" where
  "sock_read n body w =
     (let w1 = w\<lparr>trace := trace w @ [Ev_read (clvmd_sock w)]\<rparr>
      in case body of
           [] \<Rightarrow> (0, [], [], w1)
         | Body_fails e # rest \<Rightarrow> (- 1, [], rest, w1\<lparr>errno := e\<rparr>)
         | Body_bytes bs # rest \<Rightarrow>
             if length bs \<le> n then (int (length bs), bs, rest, w1)
             else (int n, take n bs, Body_bytes (drop n bs) # rest, w1))"

text \<open>The loop of \<^verbatim>\<open>send_request\<close>, lines 127-132:
  \<^verbatim>\<open>while (off < outheader->arglen && len > 0)
    { len = read(clvmd_sock, outheader->args+off, PIPE_BUF); if (len > 0) off += len; }\<close>.
  \<open>args\<close> are the bytes of \<^verbatim>\<open>outheader->args\<close> written so far.  The
  buffer of line 113 has room for the header and \<^verbatim>\<open>arglen\<close> bytes, and each
  read may deliver up to \<^verbatim>\<open>PIPE_BUF\<close>; the function keeps whatever is
  delivered, so a reply longer than its header announces, which overruns the buffer in
  C, is not a fault here.  None of the replies of the examples below is longer than
  announced.\<close>

function read_args :: "int \<Rightarrow> int \<Rightarrow> int \<Rightarrow> char list \<Rightarrow> body_read list \<Rightarrow> world \<Rightarrow> char list \<times> world" where
  "read_args arglen off len args body w =
     (if off < arglen \<and> 0 < len then
        (case sock_read PIPE_BUF body w of
           (len', bs, body', w') \<Rightarrow>
             if 0 < len' then read_args arglen (off + len') len' (take (nat off) args @ bs) body' w'
             else read_args arglen off len' args body' w')
      else (args, w))"
  by pat_completeness auto
termination
  by (relation "measure (\<lambda>(arglen, off, len, args, body, w).
        if 0 < len then Suc (nat (arglen - off)) else 0)") auto

declare read_args.simps [simp del]

text \<open>
  \<^verbatim>\<open>send_request(inbuf, inlen, retbuf)\<close>, lines 81-141.  The result is the return
  value, the pointer left in \<^verbatim>\<open>*retbuf\<close> (the caller sets it to
  \<^verbatim>\<open>NULL\<close> before the call) and the bytes of the reply's argument area that
  were received.  The first argument byte comes with the header
  (\<^verbatim>\<open>off = 1\<close>); the length of the header read is positive, the loop uses no
  more of it.
\<close>

definition send_request :: "clvm_header \<Rightarrow> world \<Rightarrow> (int \<times> ptr \<times> char list) \<times> world" where
  "send_request inbuf w =
     (case sock_write inbuf w of
        (False, w1) \<Rightarrow> ((- 1, NULL, []), to_stderr Error_writing_to_CLVMD w1)
      | (True, w1) \<Rightarrow>
          (case read_header w1 of
             (Hdr_fails e, body, w2) \<Rightarrow> ((- 1, NULL, []), to_stderr Error_reading_CLVMD w2)
           | (Hdr_eof, body, w2) \<Rightarrow>
               ((- 1, NULL, []), (to_stderr EOF_reading_CLVMD w2)\<lparr>errno := ENOTCONN\<rparr>)
           | (Hdr st arglen a0, body, w2) \<Rightarrow>
               (case malloc Reply_buffer w2 of
                  (retbuf, w3) \<Rightarrow>
                    if retbuf = NULL then ((- 1, NULL, []), w3\<lparr>errno := ENOMEM\<rparr>)
                    else
                      (case read_args arglen 1 1 [a0] body w3 of
                         (args, w4) \<Rightarrow>
                           if st < 0 then ((- 2, retbuf, args), w4\<lparr>errno := - st\<rparr>)
                           else ((0, retbuf, args), w4)))))"

subsection \<open>One request, unpacked\<close>

text \<open>
  The counting loop of \<^verbatim>\<open>cluster_request\<close>, lines 232-238.  \<open>inptr\<close> is
  what lies from the pointer to the end of the bytes received; \<open>None\<close> where the loop
  reads behind them.
\<close>

function count_responses :: "char list \<Rightarrow> int \<Rightarrow> int option" where
  "count_responses inptr n =
     (case inptr of
        [] \<Rightarrow> None
      | c # cs \<Rightarrow>
          if c = NUL then Some n
          else
            (case c_strlen inptr of
               None \<Rightarrow> None
             | Some l1 \<Rightarrow>
                 (case c_strlen (drop 4 (drop (l1 + 1) inptr)) of
                    None \<Rightarrow> None
                  | Some l2 \<Rightarrow>
                      count_responses (drop (l2 + 1) (drop 4 (drop (l1 + 1) inptr))) (n + 1))))"
  by pat_completeness auto
termination
  by (relation "measure (\<lambda>(inptr, n). length inptr)") auto

declare count_responses.simps [simp del]

text \<open>The loop of the failure branch, lines 271-272:
  \<^verbatim>\<open>for (j=0; j<i; j++) free(rarray[i].response)\<close>.\<close>

function free_produced :: "int \<Rightarrow> int \<Rightarrow> lvm_response option list \<Rightarrow> world \<Rightarrow> unit outcome" where
  "free_produced j i rarray w =
     (if j < i then
        (case rarray ! nat i of
           None \<Rightarrow> Undefined Read_uninitialised w
         | Some e \<Rightarrow> free_produced (j + 1) i rarray (free (r_response e) w))
      else Returns () w)"
  by pat_completeness auto
termination
  by (relation "measure (\<lambda>(j, i, rarray, w). nat (i - j))") auto

declare free_produced.simps [simp del]

datatype unpacked = Unpacked "lvm_response option list" | Out_of_memory

text \<open>
  The unpacking loop, lines 258-282, on the local copy \<open>rarray\<close> of the slots;
  \<open>outptr\<close> is the array's allocation.  A response string is allocated with its
  content.  The size of \<^verbatim>\<open>lvm_response_t.node\<close> is declared in
  \<^verbatim>\<open>cmgr.h\<close>, which is not among the sources: \<^verbatim>\<open>strcpy\<close> into it is
  taken to fit.
\<close>

function unpack :: "char list \<Rightarrow> int \<Rightarrow> lvm_response option list \<Rightarrow> ptr \<Rightarrow> world \<Rightarrow> unpacked outcome" where
  "unpack inptr i rarray outptr w =
     (case inptr of
        [] \<Rightarrow> Undefined Read_out_of_bounds w
      | c # cs \<Rightarrow>
          if c = NUL then Returns (Unpacked rarray) w
          else if \<not> (0 \<le> i \<and> nat i < length rarray) then Undefined Read_out_of_bounds w
          else
            (case c_strlen inptr of
               None \<Rightarrow> Undefined Read_out_of_bounds w
             | Some l1 \<Rightarrow>
                 (case read_int (drop (l1 + 1) inptr) of
                    None \<Rightarrow> Undefined Read_out_of_bounds w
                  | Some st \<Rightarrow>
                      (case c_strlen (drop 4 (drop (l1 + 1) inptr)) of
                         None \<Rightarrow> Undefined Read_out_of_bounds w
                       | Some l2 \<Rightarrow>
                           (case malloc (Response_string
                                   (take (l2 + 1) (drop 4 (drop (l1 + 1) inptr)))) w of
                              (q, w1) \<Rightarrow>
                                (let e = \<lparr>r_node = take l1 inptr, r_status = st,
                                          r_response = q, r_len = 0\<rparr>
                                 in if q = NULL then
                                      (case free_produced 0 i (rarray[nat i := Some e]) w1 of
                                         Undefined f w' \<Rightarrow> Undefined f w'
                                       | Returns u w2 \<Rightarrow>
                                           Returns Out_of_memory
                                             ((free outptr w2)\<lparr>errno := ENOMEM\<rparr>))
                                    else
                                      unpack (drop (l2 + 1) (drop 4 (drop (l1 + 1) inptr)))
                                        (i + 1)
                                        (rarray[nat i := Some (e\<lparr>r_len := int l2\<rparr>)])
                                        outptr w1))))))"
  by pat_completeness auto
termination
  by (relation "measure (\<lambda>(inptr, i, rarray, outptr, w). length inptr)") auto

declare unpack.simps [simp del]

text \<open>
  The request as \<^verbatim>\<open>cluster_request\<close> and \<^verbatim>\<open>cluster_write\<close> lay it out
  in \<^verbatim>\<open>outbuf\<close>, lines 223-224:
  \<^verbatim>\<open>build_header(head, cmd, node, data, len);
    memcpy(head->node+strlen(head->node)+1, data, len)\<close>.
\<close>

definition request_buffer :: "clvmd_cmd \<Rightarrow> string \<Rightarrow> char list \<Rightarrow> int \<Rightarrow> clvm_header" where
  "request_buffer cmd node data len =
     (let head = build_header cmd (Some node) data len
      in head\<lparr>h_node := take (length (wire_node head) + 1) (h_node head)
                            @ take (nat len) data\<rparr>)"

text \<open>
  \<^verbatim>\<open>cluster_request(cmd, node, data, len, response, num)\<close>, lines 203-289.  The
  result is the return value, what was written to \<^verbatim>\<open>*response\<close> (\<open>None\<close>:
  nothing) and the value left in \<^verbatim>\<open>*num\<close>.
\<close>

definition cluster_request :: "clvmd_cmd \<Rightarrow> string \<Rightarrow> char list \<Rightarrow> int \<Rightarrow> world \<Rightarrow> (int \<times> ptr option \<times> int) outcome" where
  "cluster_request cmd node data len w0 =
     (let w = (if clvmd_sock w0 = - 1 then
                 (case open_local_sock w0 of (s, w') \<Rightarrow> w'\<lparr>clvmd_sock := s\<rparr>)
               else w0)
      in if clvmd_sock w = - 1 then Returns (- 1, None, 0) w
         else
           (let outbuf = request_buffer cmd node data len
            in case send_request outbuf w of
                 ((status, retbuf, args), w1) \<Rightarrow>
                   if status = 0 \<or> status = - 2 then
                     (case count_responses args 0 of
                        None \<Rightarrow> Undefined Read_out_of_bounds w1
                      | Some num_resp \<Rightarrow>
                          (case malloc (Response_array LVM_SIGNATURE num_resp
                                          (replicate (nat num_resp) None)) w1 of
                             (outptr, w2) \<Rightarrow>
                               if outptr = NULL then
                                 Returns (- 1, None, 0)
                                   ((if retbuf \<noteq> NULL then free retbuf w2 else w2)
                                      \<lparr>errno := ENOMEM\<rparr>)
                               else
                                 (case unpack args 0 (replicate (nat num_resp) None)
                                         outptr w2 of
                                    Undefined f w' \<Rightarrow> Undefined f w'
                                  | Returns Out_of_memory w3 \<Rightarrow>
                                      Returns (- 1, Some outptr, 0) w3
                                  | Returns (Unpacked rarray) w3 \<Rightarrow>
                                      (let w4 = store outptr
                                                  (Response_array LVM_SIGNATURE num_resp
                                                     rarray) w3
                                       in Returns (status, Some outptr, num_resp)
                                            (if retbuf \<noteq> NULL then free retbuf w4 else w4)))))
                   else Returns (status, None, 0)
                          (if retbuf \<noteq> NULL then free retbuf w1 else w1)))"

subsection \<open>Lock and unlock\<close>

text \<open>
  The loops below run to \<^verbatim>\<open>num_responses\<close>, a static variable none of them
  writes: its value comes in as \<open>num\<close>.  They read \<^verbatim>\<open>response[i]\<close> from
  the heap each time round.

  The loop of \<^verbatim>\<open>lock_for_cluster\<close>, lines 361-368.
\<close>

function hostdown_loop :: "int \<Rightarrow> int \<Rightarrow> int \<Rightarrow> world \<Rightarrow> int outcome" where
  "hostdown_loop i num status w =
     (if i < num then
        (case read_entry (response w) i w of
           Inl f \<Rightarrow> Undefined f w
         | Inr e \<Rightarrow>
             if r_status e = - EHOSTDOWN then
               hostdown_loop (i + 1) num (- 1) (log_verbose (Not_running_on_node (r_node e)) w)
             else hostdown_loop (i + 1) num status w)
      else Returns status w)"
  by pat_completeness auto
termination
  by (relation "measure (\<lambda>(i, num, status, w). nat (num - i))") auto

declare hostdown_loop.simps [simp del]

text \<open>\<^verbatim>\<open>lock_for_cluster(scope, name, suspend)\<close>, lines 324-380.  The out
  parameters of \<^verbatim>\<open>cluster_request\<close> are the static variables
  \<^verbatim>\<open>response\<close> and \<^verbatim>\<open>num_responses\<close>.\<close>

definition lock_for_cluster :: "char \<Rightarrow> string option \<Rightarrow> int \<Rightarrow> world \<Rightarrow> int outcome" where
  "lock_for_cluster scope name suspend w =
     (if scope \<noteq> CHR ''V'' \<and> scope \<noteq> CHR ''L'' \<and> scope \<noteq> CHR ''G'' then
        Returns (- 1) (w\<lparr>errno := EINVAL\<rparr>)
      else
        (let (len, args) = lock_args scope name;
             cmd = (if suspend \<noteq> 0 then CLVMD_CMD_LOCK_SUSPEND else CLVMD_CMD_LOCK)
         in case cluster_request cmd [] args len w of
              Undefined f w' \<Rightarrow> Undefined f w'
            | Returns (status, resp, num) w1 \<Rightarrow>
                (let w2 = w1\<lparr>num_responses := num,
                            response := (case resp of None \<Rightarrow> response w1 | Some p \<Rightarrow> p)\<rparr>
                 in case hostdown_loop 0 (num_responses w2) status w2 of
                      Undefined f w' \<Rightarrow> Undefined f w'
                    | Returns status' w3 \<Rightarrow>
                        if status' \<noteq> 0 then
                          (let saved_errno = errno w3
                           in case cluster_free_request (response w3) w3 of
                                Undefined f w' \<Rightarrow> Undefined f w'
                              | Returns r w4 \<Rightarrow>
                                  Returns status'
                                    (w4\<lparr>num_responses := 0, errno := saved_errno\<rparr>))
                        else Returns status' w3)))"

text \<open>The loop of \<^verbatim>\<open>unlock_for_cluster\<close> that counts the failures, lines
  424-428.\<close>

function count_failed :: "int \<Rightarrow> int \<Rightarrow> int \<Rightarrow> world \<Rightarrow> int outcome" where
  "count_failed i num failed w =
     (if i < num then
        (case read_entry (response w) i w of
           Inl f \<Rightarrow> Undefined f w
         | Inr e \<Rightarrow>
             if r_status e \<noteq> 0 then count_failed (i + 1) num (failed + 1) w
             else count_failed (i + 1) num failed w)
      else Returns failed w)"
  by pat_completeness auto
termination
  by (relation "measure (\<lambda>(i, num, failed, w). nat (num - i))") auto

declare count_failed.simps [simp del]

text \<open>
  One round of the loop over the nodes when the lock had failed somewhere, lines
  436-459, for the entry \<open>e\<close> that \<^verbatim>\<open>response[i]\<close> holds.
  \<open>unlock_response\<close> is the local pointer of that name: \<open>None\<close> until
  \<^verbatim>\<open>cluster_request\<close> has written it; the result is its value after the round.
  \<^verbatim>\<open>strerror\<close> is logged by its argument.
\<close>

definition unlock_node :: "lvm_response \<Rightarrow> clvmd_cmd \<Rightarrow> char list \<Rightarrow> int \<Rightarrow> ptr option \<Rightarrow> world \<Rightarrow> ptr option outcome" where
  "unlock_node e cmd args len unlock_response w =
     (if r_status e = 0 then
        (case cluster_request cmd (r_node e) args len w of
           Undefined f w' \<Rightarrow> Undefined f w'
         | Returns (status, resp, num_unlock_responses) w1 \<Rightarrow>
             (let unlock_response' =
                    (case resp of None \<Rightarrow> unlock_response | Some p \<Rightarrow> Some p)
              in case
                   (if status \<noteq> 0 then
                      Returns ()
                        (log_verbose
                           (Cluster_command_to_node_failed (r_node e) (errno w1)) w1)
                    else
                      (case unlock_response' of
                         None \<Rightarrow> Undefined Read_uninitialised w1
                       | Some p \<Rightarrow>
                           (case read_entry p 0 w1 of
                              Inl f \<Rightarrow> Undefined f w1
                            | Inr u \<Rightarrow>
                                if r_status u \<noteq> 0 then
                                  Returns ()
                                    (log_verbose
                                       (Unlock_on_node_failed (r_node e) (r_status u)) w1)
                                else Returns () w1)))
                 of
                   Undefined f w' \<Rightarrow> Undefined f w'
                 | Returns u w2 \<Rightarrow>
                     (case unlock_response' of
                        None \<Rightarrow> Undefined Read_uninitialised w2
                      | Some p \<Rightarrow>
                          (case cluster_free_request p w2 of
                             Undefined f w' \<Rightarrow> Undefined f w'
                           | Returns r w3 \<Rightarrow> Returns unlock_response' w3))))
      else
        Returns unlock_response (log_verbose (Left_locked (r_node e) (r_status e)) w))"

text \<open>The loop itself, lines 434-460.\<close>

function unlock_nodes :: "int \<Rightarrow> int \<Rightarrow> clvmd_cmd \<Rightarrow> char list \<Rightarrow> int \<Rightarrow> ptr option \<Rightarrow> world \<Rightarrow> unit outcome" where
  "unlock_nodes i num cmd args len unlock_response w =
     (if i < num then
        (case read_entry (response w) i w of
           Inl f \<Rightarrow> Undefined f w
         | Inr e \<Rightarrow>
             (case unlock_node e cmd args len unlock_response w of
                Undefined f w' \<Rightarrow> Undefined f w'
              | Returns unlock_response' w' \<Rightarrow>
                  unlock_nodes (i + 1) num cmd args len unlock_response' w'))
      else Returns () w)"
  by pat_completeness auto
termination
  by (relation "measure (\<lambda>(i, num, cmd, args, len, unlock_response, w). nat (num - i))") auto

declare unlock_nodes.simps [simp del]

text \<open>The loop over the replies to the unlock of the whole cluster, lines 476-483.\<close>

function report_unlock :: "int \<Rightarrow> int \<Rightarrow> ptr \<Rightarrow> world \<Rightarrow> unit outcome" where
  "report_unlock i num_unlock_responses unlock_response w =
     (if i < num_unlock_responses then
        (case read_entry unlock_response i w of
           Inl f \<Rightarrow> Undefined f w
         | Inr u \<Rightarrow>
             if r_status u \<noteq> 0 then
               (case read_entry (response w) i w of
                  Inl f \<Rightarrow> Undefined f w
                | Inr e \<Rightarrow>
                    (case read_entry unlock_response 0 w of
                       Inl f \<Rightarrow> Undefined f w
                     | Inr u0 \<Rightarrow>
                         report_unlock (i + 1) num_unlock_responses unlock_response
                           (log_verbose (Unlock_on_node_failed (r_node e) (r_status u0)) w)))
             else report_unlock (i + 1) num_unlock_responses unlock_response w)
      else Returns () w)"
  by pat_completeness auto
termination
  by (relation "measure (\<lambda>(i, num_unlock_responses, unlock_response, w).
        nat (num_unlock_responses - i))") auto

declare report_unlock.simps [simp del]

text \<open>The unlock of the whole cluster, lines 464-485.\<close>

definition unlock_all :: "clvmd_cmd \<Rightarrow> char list \<Rightarrow> int \<Rightarrow> world \<Rightarrow> unit outcome" where
  "unlock_all cmd args len w =
     (case cluster_request cmd [] args len w of
        Undefined f w' \<Rightarrow> Undefined f w'
      | Returns (status, unlock_response, num_unlock_responses) w1 \<Rightarrow>
          (case
             (if status \<noteq> 0 then Returns () (log_verbose (Cluster_command_failed (errno w1)) w1)
              else
                (case unlock_response of
                   None \<Rightarrow> Undefined Read_uninitialised w1
                 | Some p \<Rightarrow> report_unlock 0 num_unlock_responses p w1))
           of
             Undefined f w' \<Rightarrow> Undefined f w'
           | Returns u w2 \<Rightarrow>
               (case unlock_response of
                  None \<Rightarrow> Undefined Read_uninitialised w2
                | Some p \<Rightarrow>
                    (case cluster_free_request p w2 of
                       Undefined f w' \<Rightarrow> Undefined f w'
                     | Returns r w3 \<Rightarrow> Returns () w3))))"

text \<open>\<^verbatim>\<open>unlock_for_cluster(scope, name, suspend)\<close>, lines 382-490.\<close>

definition unlock_for_cluster :: "char \<Rightarrow> string option \<Rightarrow> int \<Rightarrow> world \<Rightarrow> int outcome" where
  "unlock_for_cluster scope name suspend w =
     (if num_responses w = 0 then Returns 0 w
      else if scope \<noteq> CHR ''V'' \<and> scope \<noteq> CHR ''L'' \<and> scope \<noteq> CHR ''G'' then
        Returns (- 1) (w\<lparr>errno := EINVAL\<rparr>)
      else
        (let (len, args) = lock_args scope name;
             cmd = (if suspend \<noteq> 0 then CLVMD_CMD_UNLOCK_RESUME else CLVMD_CMD_UNLOCK)
         in case count_failed 0 (num_responses w) 0 w of
              Undefined f w' \<Rightarrow> Undefined f w'
            | Returns failed w1 \<Rightarrow>
                (case
                   (if failed \<noteq> 0 then unlock_nodes 0 (num_responses w1) cmd args len None w1
                    else unlock_all cmd args len w1)
                 of
                   Undefined f w' \<Rightarrow> Undefined f w'
                 | Returns u w2 \<Rightarrow>
                     (case cluster_free_request (response w2) w2 of
                        Undefined f w' \<Rightarrow> Undefined f w'
                      | Returns r w3 \<Rightarrow> Returns 0 w3))))"

subsection \<open>The entry points\<close>

text \<open>The activation layer (\<^verbatim>\<open>activate.h\<close>) is outside the file: a call to it
  is recorded in the trace with its arguments.\<close>

definition suspend_lvs_in_vg :: "volume_group \<Rightarrow> int \<Rightarrow> world \<Rightarrow> world" where
  "suspend_lvs_in_vg vg sls w = w\<lparr>trace := trace w @ [Ev_suspend_lvs_in_vg vg sls]\<rparr>"

definition activate_lvs_in_vg :: "volume_group \<Rightarrow> world \<Rightarrow> world" where
  "activate_lvs_in_vg vg w = w\<lparr>trace := trace w @ [Ev_activate_lvs_in_vg vg]\<rparr>"

definition lv_suspend :: "logical_volume \<Rightarrow> int \<Rightarrow> world \<Rightarrow> world" where
  "lv_suspend lv sls w = w\<lparr>trace := trace w @ [Ev_lv_suspend lv sls]\<rparr>"

definition lv_reactivate :: "logical_volume \<Rightarrow> world \<Rightarrow> world" where
  "lv_reactivate lv w = w\<lparr>trace := trace w @ [Ev_lv_reactivate lv]\<rparr>"

text \<open>\<^verbatim>\<open>lock_lvm(suspend)\<close> and \<^verbatim>\<open>unlock_lvm()\<close>, lines 496-533.\<close>

definition lock_lvm :: "int \<Rightarrow> world \<Rightarrow> int outcome" where
  "lock_lvm suspend w =
     (case lock_for_cluster CHR ''G'' None suspend (w\<lparr>suspended := suspend\<rparr>) of
        Undefined f w' \<Rightarrow> Undefined f w'
      | Returns status w1 \<Rightarrow>
          if status = - 1 then
            (if errno w1 = ENOENT then Returns 0 (w1\<lparr>clustered := 0\<rparr>)
             else Returns (- 1) (w1\<lparr>clustered := 1\<rparr>))
          else Returns status (w1\<lparr>clustered := 1\<rparr>))"

definition unlock_lvm :: "world \<Rightarrow> int outcome" where
  "unlock_lvm w =
     (if clustered w = 0 then Returns 0 w
      else unlock_for_cluster CHR ''G'' None (suspended w) w)"

text \<open>\<^verbatim>\<open>lock_vg(vg, suspend)\<close> and \<^verbatim>\<open>unlock_vg(vg)\<close>, lines 537-574.\<close>

definition lock_vg :: "volume_group \<Rightarrow> int \<Rightarrow> world \<Rightarrow> int outcome" where
  "lock_vg vg suspend w =
     (case lock_for_cluster CHR ''V'' (vg_name vg) suspend (w\<lparr>suspended := suspend\<rparr>) of
        Undefined f w' \<Rightarrow> Undefined f w'
      | Returns status w1 \<Rightarrow>
          if status = - 1 then
            (if errno w1 = ENOENT then
               Returns 0 (suspend_lvs_in_vg vg 1 (w1\<lparr>clustered := 0\<rparr>))
             else Returns (- 1) (w1\<lparr>clustered := 1\<rparr>))
          else Returns status (w1\<lparr>clustered := 1\<rparr>))"

definition unlock_vg :: "volume_group \<Rightarrow> world \<Rightarrow> int outcome" where
  "unlock_vg vg w =
     (if clustered w = 0 then Returns 0 (activate_lvs_in_vg vg w)
      else unlock_for_cluster CHR ''V'' (vg_name vg) (suspended w) w)"

text \<open>\<^verbatim>\<open>lock_lv(lv, suspend)\<close> and \<^verbatim>\<open>unlock_lv(lv)\<close>, lines 577-614.\<close>

definition lock_lv :: "logical_volume \<Rightarrow> int \<Rightarrow> world \<Rightarrow> int outcome" where
  "lock_lv lv suspend w =
     (case lock_for_cluster CHR ''L'' (lv_name lv) suspend (w\<lparr>suspended := suspend\<rparr>) of
        Undefined f w' \<Rightarrow> Undefined f w'
      | Returns status w1 \<Rightarrow>
          if status = - 1 then
            (if errno w1 = ENOENT then
               Returns 0 (lv_suspend lv 1 (w1\<lparr>clustered := 0\<rparr>))
             else Returns (- 1) (w1\<lparr>clustered := 1\<rparr>))
          else Returns status (w1\<lparr>clustered := 1\<rparr>))"

definition unlock_lv :: "logical_volume \<Rightarrow> world \<Rightarrow> int outcome" where
  "unlock_lv lv w =
     (if clustered w = 0 then Returns 0 (lv_reactivate lv w)
      else unlock_for_cluster CHR ''L'' (lv_name lv) (suspended w) w)"

subsection \<open>What a run leaves behind\<close>

text \<open>The world a call ends in, whether it returns or not.\<close>

fun world_of :: "'a outcome \<Rightarrow> world" where
  "world_of (Returns r w) = w"
| "world_of (Undefined f w) = w"

text \<open>The requests written to the socket, in order.\<close>

fun written :: "event list \<Rightarrow> clvm_header list" where
  "written [] = []"
| "written (Ev_write fd buf # es) = buf # written es"
| "written (e # es) = written es"

text \<open>The requests written between two worlds.\<close>

definition sent :: "world \<Rightarrow> world \<Rightarrow> clvm_header list" where
  "sent w w' = drop (length (written (trace w))) (written (trace w'))"



text \<open>The slots that are written, in order.\<close>

fun present :: "'a option list \<Rightarrow> 'a list" where
  "present [] = []"
| "present (None # s) = present s"
| "present (Some e # s) = e # present s"

text \<open>The slots of the array \<^verbatim>\<open>response\<close> points to, and the responses the
  session holds: the first \<^verbatim>\<open>num_responses\<close> of them.\<close>

definition slots_of :: "world \<Rightarrow> lvm_response option list" where
  "slots_of w =
     (case lookup (heap w) (response w) of
        Some (Response_array sg n slots) \<Rightarrow> slots
      | _ \<Rightarrow> [])"

definition stored :: "world \<Rightarrow> lvm_response list" where
  "stored w = present (take (nat (num_responses w)) (slots_of w))"

text \<open>The argument bytes of a request: what lies behind the node name and its
  terminator.\<close>

definition payload :: "clvm_header \<Rightarrow> char list" where
  "payload buf = drop (length (wire_node buf) + 1) (h_node buf)"

text \<open>The characters of a name that may be \<^verbatim>\<open>NULL\<close>.\<close>

definition name_bytes :: "string option \<Rightarrow> string" where
  "name_bytes name = (case name of None \<Rightarrow> [] | Some n \<Rightarrow> n)"

text \<open>The world with some more requests written to the socket.\<close>

definition add_writes :: "world \<Rightarrow> clvm_header list \<Rightarrow> world" where
  "add_writes w bufs = w\<lparr>trace := trace w @ map (Ev_write (clvmd_sock w)) bufs\<rparr>"

text \<open>An allocation's content points behind address \<open>L\<close> only.\<close>

fun points_behind :: "nat \<Rightarrow> obj \<Rightarrow> bool" where
  "points_behind L (Response_array sg n slots) = (\<forall>e \<in> set (present slots). L < r_response e)"
| "points_behind L ob = True"

text \<open>
  \<open>quiet w w'\<close>: from \<open>w\<close> to \<open>w'\<close> nothing was written to the socket, the static
  variables other than \<open>errno\<close> are as they were, so is every allocation \<open>w\<close> has,
  and the allocations made since point to later allocations only.
\<close>

definition quiet :: "world \<Rightarrow> world \<Rightarrow> bool" where
  "quiet w w' =
     (length (heap w) \<le> length (heap w')
      \<and> (\<forall>p. p \<le> length (heap w) \<longrightarrow> lookup (heap w') p = lookup (heap w) p)
      \<and> (\<forall>p ob. length (heap w) < p \<and> lookup (heap w') p = Some ob
            \<longrightarrow> points_behind (length (heap w)) ob)
      \<and> num_responses w' = num_responses w
      \<and> response w' = response w
      \<and> clustered w' = clustered w
      \<and> suspended w' = suspended w
      \<and> clvmd_sock w' = clvmd_sock w
      \<and> written (trace w') = written (trace w))"

text \<open>\<open>same_statics w w'\<close>: the static variables other than \<open>errno\<close> and the
  requests written are the same in both worlds.\<close>

definition same_statics :: "world \<Rightarrow> world \<Rightarrow> bool" where
  "same_statics w w' =
     (num_responses w' = num_responses w \<and> response w' = response w
      \<and> clustered w' = clustered w \<and> suspended w' = suspended w
      \<and> clvmd_sock w' = clvmd_sock w \<and> written (trace w') = written (trace w))"

subsection \<open>Worlds to run the program in\<close>

text \<open>The process at its start, with the scripts of the outside.\<close>

definition start :: "open_script list \<Rightarrow> write_script list \<Rightarrow> (hdr_read \<times> body_read list) list \<Rightarrow> bool list \<Rightarrow> world" where
  "start os ws rs ms =
     \<lparr>clvmd_sock = - 1, errno = 0, num_responses = 0, response = NULL, clustered = 0,
      suspended = 0, heap = [], trace = [], opens = os, close_errno = None, writes = ws,
      replies = rs, mallocs = ms\<rparr>"

text \<open>The bytes of one record of a reply: node name, status (four bytes, least
  significant first), response string.\<close>

definition int_bytes :: "int \<Rightarrow> char list" where
  "int_bytes v =
     (let u = (if v < 0 then v + 4294967296 else v)
      in [char_of (u mod 256), char_of (u div 256 mod 256), char_of (u div 65536 mod 256),
          char_of (u div 16777216 mod 256)])"

definition reply_record :: "string \<Rightarrow> int \<Rightarrow> string \<Rightarrow> char list" where
  "reply_record nd st rsp = nd @ [NUL] @ int_bytes st @ rsp @ [NUL]"

text \<open>A complete reply with the given records, delivered by one read behind the
  header.\<close>

definition reply_of :: "int \<Rightarrow> char list \<Rightarrow> hdr_read \<times> body_read list" where
  "reply_of st bytes =
     (Hdr st (int (length bytes) + 1) (hd (bytes @ [NUL])),
      [Body_bytes (tl (bytes @ [NUL]))])"

text \<open>
  A daemon that answers a first request for three nodes, with status -16 for the
  second, and two more requests for one node each; and the session
  \<^verbatim>\<open>lock_for_cluster\<close> leaves when it locks a volume group there.
\<close>

definition three_nodes :: world where
  "three_nodes =
     start [Connects 3] []
       [reply_of 0 (reply_record ''n1'' 0 [] @ reply_record ''n2'' (- 16) []
                    @ reply_record ''n3'' 0 []),
        reply_of 0 (reply_record ''n1'' 0 []),
        reply_of 0 (reply_record ''n3'' 0 [])] []"

definition partly_locked :: world where
  "partly_locked = world_of (lock_for_cluster CHR ''V'' (Some ''vg01'') 0 three_nodes)"

text \<open>A session in which the lock, with suspend, succeeded on both nodes; the daemon
  has one more reply to give.\<close>

definition fully_locked :: world where
  "fully_locked =
     world_of (lock_for_cluster CHR ''V'' (Some ''vg01'') 1
       (start [Connects 3] []
          [reply_of 0 (reply_record ''n1'' 0 [] @ reply_record ''n2'' 0 []),
           reply_of 0 (reply_record ''n1'' 0 [] @ reply_record ''n2'' 0 [])] []))"


text \<open>A heap with an array whose first \<^verbatim>\<open>int\<close> is not the signature.\<close>

definition foreign_world :: world where
  "foreign_world =
     (start [] [] [] [])
       \<lparr>heap := [Some (Response_array 7 1
                          [Some \<lparr>r_node = ''n1'', r_status = 0, r_response = 2, r_len = 0\<rparr>]),
                  Some (Response_string [NUL])]\<rparr>"

text \<open>The addresses passed to \<^verbatim>\<open>free\<close>, in order.\<close>

fun freed :: "event list \<Rightarrow> ptr list" where
  "freed [] = []"
| "freed (Ev_free p # es) = p # freed es"
| "freed (e # es) = freed es"

text \<open>No daemon: the socket's path does not exist.\<close>

definition daemon_absent :: world where
  "daemon_absent = start [Connect_fails 3 ENOENT] [] [] []"

definition vg01 :: volume_group where
  "vg01 = \<lparr>vg_name = Some ''vg01''\<rparr>"

text \<open>A connection on which the reply's header announces nine argument bytes and
  nothing follows it; and a daemon whose reply announces a hundred argument bytes and
  ends after nine, one record and the end marker.\<close>

definition cut_off :: world where
  "cut_off = (start [] [] [(Hdr 0 9 CHR ''n'', [])] [])\<lparr>clvmd_sock := 3\<rparr>"

definition truncating :: world where
  "truncating =
     start [Connects 3] []
       [(Hdr 0 100 CHR ''n'', [Body_bytes (tl (reply_record ''n1'' 0 [] @ [NUL]))])] []"

text \<open>A daemon that answers for two nodes, and an allocator that fails at its fourth
  call: the response string of the second node.\<close>

definition short_of_memory :: world where
  "short_of_memory =
     start [Connects 3] []
       [reply_of 0 (reply_record ''n1'' 0 ''ok'' @ reply_record ''n2'' 0 ''ok'')]
       [True, True, True, False]"

section \<open>Properties\<close>

subsection \<open>The heap\<close>

lemma takeWhile_cstring:
  "NUL \<notin> set n \<Longrightarrow> takeWhile (\<lambda>c. c \<noteq> NUL) (n @ NUL # bs) = n"
  by (induction n) auto

lemma lookup_append [simp]:
  "lookup (h @ [x]) p = (if p = Suc (length h) then x else lookup h p)"
  by (auto simp: lookup_def nth_append)

lemma lookup_update:
  "p \<noteq> 0 \<Longrightarrow> lookup (h[p - 1 := x]) q = (if q = p \<and> p \<le> length h then x else lookup h q)"
  by (auto simp: lookup_def nth_list_update)

lemma lookup_NULL [simp]: "lookup h NULL = None"
  by (simp add: lookup_def)

lemma lookup_update':
  "0 < p \<Longrightarrow> lookup (h[p - Suc 0 := x]) q = (if q = p \<and> p \<le> length h then x else lookup h q)"
  using lookup_update[of p h x q] by simp

lemma lookup_bound: "lookup h p = Some ob \<Longrightarrow> p \<noteq> 0 \<and> p \<le> length h"
  by (auto simp: lookup_def split: if_splits)

lemma lookup_free [simp]:
  "lookup (heap (free p w)) q = (if q = p then None else lookup (heap w) q)"
  by (auto simp: free_def lookup_update) (auto simp: lookup_def)

lemma written_append [simp]: "written (xs @ ys) = written xs @ written ys"
  by (induction xs rule: written.induct) auto

lemma free_fields [simp]:
  "num_responses (free p w) = num_responses w" "response (free p w) = response w"
  "clustered (free p w) = clustered w" "suspended (free p w) = suspended w"
  "clvmd_sock (free p w) = clvmd_sock w" "errno (free p w) = errno w"
  "written (trace (free p w)) = written (trace w)"
  "length (heap (free p w)) = length (heap w)"
  "opens (free p w) = opens w" "writes (free p w) = writes w"
  "replies (free p w) = replies w" "mallocs (free p w) = mallocs w"
  "close_errno (free p w) = close_errno w"
  by (simp_all add: free_def)

lemma read_entry_free [simp]:
  "p \<noteq> r \<Longrightarrow> read_entry r i (free p w) = read_entry r i w"
  by (simp add: read_entry_def)

lemma read_entry_Some:
  "lookup (heap w) resp = Some (Response_array sg n (map Some es)) \<Longrightarrow> i < length es \<Longrightarrow>
   read_entry resp (int i) w = Inr (es ! i)"
  by (simp add: read_entry_def)

lemma free_loop_frees:
  "lookup (heap w) resp = Some (Response_array sg n (map Some es)) \<Longrightarrow>
   0 \<le> num \<Longrightarrow> nat num \<le> length es \<Longrightarrow>
   \<forall>e \<in> set (drop i (take (nat num) es)). r_response e \<noteq> resp \<Longrightarrow>
   free_loop resp (int i) num w
     = Returns () (fold (\<lambda>e. free (r_response e)) (drop i (take (nat num) es)) w)"
proof (induction "nat num - i" arbitrary: i w)
  case 0
  then have "\<not> int i < num" by linarith
  moreover from 0 have "drop i (take (nat num) es) = []" by simp
  ultimately show ?case by (simp add: free_loop.simps)
next
  case (Suc k)
  then have lt: "int i < num" and il: "i < length es" and it: "i < length (take (nat num) es)"
    by auto
  have split: "drop i (take (nat num) es) = es ! i # drop (Suc i) (take (nat num) es)"
    using it il lt by (subst Cons_nth_drop_Suc[symmetric]) simp_all
  have ne: "r_response (es ! i) \<noteq> resp"
    using Suc.prems(4) split by simp
  have rest: "\<forall>e \<in> set (drop (Suc i) (take (nat num) es)). r_response e \<noteq> resp"
    using Suc.prems(4) split by simp
  have "free_loop resp (int (Suc i)) num (free (r_response (es ! i)) w)
     = Returns () (fold (\<lambda>e. free (r_response e)) (drop (Suc i) (take (nat num) es))
          (free (r_response (es ! i)) w))"
    using Suc.hyps(2) Suc.prems(1,2,3) ne rest
    by (intro Suc.hyps(1)) (auto simp: )
  then show ?case
    using lt il Suc.prems(1) split
    by (subst free_loop.simps) (simp add: read_entry_Some add.commute)
qed

lemma trace_fold_free:
  "trace (fold (\<lambda>e. free (r_response e)) es w)
     = trace w @ map Ev_free (filter (\<lambda>p. p \<noteq> NULL) (map r_response es))"
  by (induction es arbitrary: w) (auto simp: free_def)

lemma written_map_write [simp]: "written (map (Ev_write fd) bufs) = bufs"
  by (induction bufs) auto

lemma add_writes_fields [simp]:
  "heap (add_writes w bufs) = heap w"
  "num_responses (add_writes w bufs) = num_responses w"
  "response (add_writes w bufs) = response w"
  "clustered (add_writes w bufs) = clustered w"
  "suspended (add_writes w bufs) = suspended w"
  "clvmd_sock (add_writes w bufs) = clvmd_sock w"
  "errno (add_writes w bufs) = errno w"
  "written (trace (add_writes w bufs)) = written (trace w) @ bufs"
  by (simp_all add: add_writes_def)

lemma add_writes_append: "add_writes (add_writes w xs) ys = add_writes w (xs @ ys)"
  by (simp add: add_writes_def)

lemma add_writes_Nil [simp]: "add_writes w [] = w"
  by (simp add: add_writes_def)

lemma quiet_refl [simp]: "quiet w w"
  by (auto simp: quiet_def dest: lookup_bound)

lemma quiet_update [simp]:
  "quiet w0 (w\<lparr>errno := e\<rparr>) = quiet w0 w"
  "quiet w0 (w\<lparr>mallocs := ms\<rparr>) = quiet w0 w"
  "quiet w0 (w\<lparr>writes := ws\<rparr>) = quiet w0 w"
  "quiet w0 (w\<lparr>replies := rs\<rparr>) = quiet w0 w"
  "quiet w0 (w\<lparr>opens := os\<rparr>) = quiet w0 w"
  "quiet w0 (to_stderr m w) = quiet w0 w"
  "quiet w0 (log_verbose l w) = quiet w0 w"
  "quiet w0 (w\<lparr>trace := trace w @ [Ev_read fd]\<rparr>) = quiet w0 w"
  by (simp_all add: quiet_def to_stderr_def log_verbose_def)

lemma malloc_new:
  "malloc ob w = (p, w') \<Longrightarrow> p \<noteq> NULL \<Longrightarrow>
   p = Suc (length (heap w)) \<and> heap w' = heap w @ [Some ob]"
  by (auto simp: malloc_def split: list.splits bool.splits)

lemma malloc_errno [simp]: "errno (snd (malloc ob w)) = errno w"
  by (auto simp: malloc_def split: list.splits bool.splits)

lemma quiet_malloc:
  "quiet w0 w \<Longrightarrow> malloc ob w = (p, w') \<Longrightarrow> points_behind (length (heap w0)) ob \<Longrightarrow>
   quiet w0 w' \<and> (p = NULL \<or> length (heap w0) < p)"
  by (auto simp: malloc_def quiet_def split: list.splits bool.splits if_splits)

lemma quiet_free:
  "quiet w0 w \<Longrightarrow> p = NULL \<or> length (heap w0) < p \<Longrightarrow> quiet w0 (free p w)"
  by (auto simp: quiet_def)

lemma lookup_store:
  "p \<noteq> NULL \<Longrightarrow> lookup (heap (store p ob w)) q
     = (if q = p \<and> p \<le> length (heap w) then Some ob else lookup (heap w) q)"
  by (simp add: store_def lookup_update')

lemma quiet_store:
  "quiet w0 w \<Longrightarrow> length (heap w0) < p \<Longrightarrow> points_behind (length (heap w0)) ob \<Longrightarrow>
   quiet w0 (store p ob w)"
  unfolding quiet_def
  by (auto simp: lookup_store) (auto simp: store_def)

lemma quiet_sock_read:
  "quiet w0 w \<Longrightarrow> sock_read n body w = (len', bs, body', w') \<Longrightarrow> quiet w0 w'"
  by (auto simp: sock_read_def Let_def split: list.splits body_read.splits if_splits)

lemma read_args_quiet:
  "quiet w0 w \<Longrightarrow> quiet w0 (snd (read_args arglen off len args body w))"
proof (induction arglen off len args body w rule: read_args.induct)
  case (1 arglen off len args body w)
  show ?case
  proof (cases "off < arglen \<and> 0 < len")
    case True
    obtain len' bs body' w' where sr: "sock_read PIPE_BUF body w = (len', bs, body', w')"
      by (cases "sock_read PIPE_BUF body w") auto
    have q: "quiet w0 w'"
      using sr "1.prems" by (rule quiet_sock_read[rotated])
    have a: "0 < len' \<Longrightarrow>
        quiet w0 (snd (read_args arglen (off + len') len' (take (nat off) args @ bs) body' w'))"
      using "1.IH"(1)[OF True sr[symmetric] refl refl _ q] by simp
    have b: "\<not> 0 < len' \<Longrightarrow> quiet w0 (snd (read_args arglen off len' args body' w'))"
      using "1.IH"(2)[OF True sr[symmetric] refl refl _ q] by simp
    show ?thesis
      using True sr a b by (subst read_args.simps) simp
  next
    case False
    then show ?thesis
      using "1.prems" by (subst read_args.simps) auto
  qed
qed

lemma quiet_sock_write:
  "quiet w0 w \<Longrightarrow> quiet (add_writes w0 [inbuf]) (snd (sock_write inbuf w))"
  by (auto simp: sock_write_def Let_def quiet_def split: list.splits write_script.splits)

lemma quiet_read_header:
  "quiet w0 w \<Longrightarrow> read_header w = (h, body, w') \<Longrightarrow> quiet w0 w'"
  by (auto simp: read_header_def Let_def split: list.splits hdr_read.splits)

lemma send_request_quiet:
  assumes "quiet w0 w" and "send_request inbuf w = ((st, retbuf, args), w')"
  shows "quiet (add_writes w0 [inbuf]) w' \<and> (retbuf = NULL \<or> length (heap w0) < retbuf)"
proof -
  obtain ok w1 where sw: "sock_write inbuf w = (ok, w1)" by (cases "sock_write inbuf w") auto
  have q1: "quiet (add_writes w0 [inbuf]) w1"
    using quiet_sock_write[OF assms(1), of inbuf] sw by simp
  show ?thesis
  proof (cases ok)
    case False
    then show ?thesis using assms(2) sw q1 by (auto simp: send_request_def)
  next
    case True
    obtain h body w2 where rh: "read_header w1 = (h, body, w2)"
      by (cases "read_header w1") auto
    have q2: "quiet (add_writes w0 [inbuf]) w2" using quiet_read_header[OF q1 rh] .
    show ?thesis
    proof (cases h)
      case (Hdr hst arglen a0)
      obtain p w3 where m: "malloc Reply_buffer w2 = (p, w3)"
        by (cases "malloc Reply_buffer w2") auto
      have q3: "quiet (add_writes w0 [inbuf]) w3 \<and> (p = NULL \<or> length (heap w0) < p)"
        using quiet_malloc[OF q2 m] by simp
      obtain as w4 where ra: "read_args arglen 1 1 [a0] body w3 = (as, w4)"
        by (cases "read_args arglen 1 1 [a0] body w3") auto
      have q4: "quiet (add_writes w0 [inbuf]) w4"
        using read_args_quiet[of "add_writes w0 [inbuf]" w3 arglen 1 1 "[a0]" body] q3 ra by simp
      show ?thesis
        using assms(2) sw True rh Hdr m q3 ra q4
        by (auto simp: send_request_def split: if_splits)
    qed (use assms(2) sw True rh q2 in \<open>auto simp: send_request_def\<close>)
  qed
qed


lemma set_present: "set (present xs) = {e. Some e \<in> set xs}"
  by (induction xs rule: present.induct) auto

lemma present_update:
  "e' \<in> set (present (xs[n := Some e])) \<Longrightarrow> e' = e \<or> e' \<in> set (present xs)"
  using set_update_subset_insert[of xs n "Some e"] by (auto simp: set_present)

lemma present_replicate [simp]: "present (replicate n None) = []"
  by (induction n) auto

lemma free_produced_quiet:
  "quiet w0 w \<Longrightarrow>
   \<forall>e. rarray ! nat i = Some e \<longrightarrow> r_response e = NULL \<or> length (heap w0) < r_response e \<Longrightarrow>
   quiet w0 (world_of (free_produced j i rarray w))"
proof (induction j i rarray w rule: free_produced.induct)
  case (1 j i rarray w)
  show ?case
  proof (cases "j < i")
    case False
    then show ?thesis using "1.prems" by (subst free_produced.simps) simp
  next
    case True
    show ?thesis
    proof (cases "rarray ! nat i")
      case None
      then show ?thesis using True "1.prems" by (subst free_produced.simps) simp
    next
      case (Some e)
      have "quiet w0 (free (r_response e) w)"
        using "1.prems" Some by (intro quiet_free) auto
      then show ?thesis
        using True Some "1.IH"[OF True Some] "1.prems"(2)
        by (subst free_produced.simps) simp
    qed
  qed
qed

lemma unpack_quiet:
  "quiet w0 w \<Longrightarrow> length (heap w0) < outptr \<Longrightarrow>
   \<forall>e \<in> set (present rarray). length (heap w0) < r_response e \<Longrightarrow>
   (case unpack inptr i rarray outptr w of
      Undefined f w' \<Rightarrow> quiet w0 w'
    | Returns Out_of_memory w' \<Rightarrow> quiet w0 w'
    | Returns (Unpacked rarray') w' \<Rightarrow>
        quiet w0 w' \<and> (\<forall>e \<in> set (present rarray'). length (heap w0) < r_response e))"
proof (induction inptr i rarray outptr w rule: unpack.induct)
  case (1 inptr i rarray outptr w)
  show ?case
  proof (cases "\<exists>c cs l1 st l2. inptr = c # cs \<and> c \<noteq> NUL \<and> 0 \<le> i \<and> nat i < length rarray
      \<and> c_strlen inptr = Some l1 \<and> read_int (drop (l1 + 1) inptr) = Some st
      \<and> c_strlen (drop 4 (drop (l1 + 1) inptr)) = Some l2")
    case False
    then show ?thesis
      using "1.prems"
      by (subst unpack.simps) (auto split: list.splits option.splits)
  next
    case True
    then obtain c cs l1 st l2 where c: "inptr = c # cs" "c \<noteq> NUL" "0 \<le> i" "nat i < length rarray"
      "c_strlen inptr = Some l1" "read_int (drop (l1 + 1) inptr) = Some st"
      "c_strlen (drop 4 (drop (l1 + 1) inptr)) = Some l2"
      by blast
    obtain q w1 where m: "malloc (Response_string (take (l2 + 1) (drop 4 (drop (l1 + 1) inptr)))) w
        = (q, w1)"
      by (cases "malloc (Response_string (take (l2 + 1) (drop 4 (drop (l1 + 1) inptr)))) w") auto
    have q1: "quiet w0 w1" and qn: "q = NULL \<or> length (heap w0) < q"
      using quiet_malloc[OF "1.prems"(1) m] by simp_all
    define e where "e = \<lparr>r_node = take l1 inptr, r_status = st, r_response = q, r_len = 0\<rparr>"
    show ?thesis
    proof (cases "q = NULL")
      case True
      define out where "out = free_produced 0 i (rarray[nat i := Some e]) w1"
      have qo: "quiet w0 (world_of out)"
        unfolding out_def using q1 c(4) True by (intro free_produced_quiet) (auto simp: e_def)
      have eq: "unpack inptr i rarray outptr w =
          (case out of
             Undefined f w' \<Rightarrow> Undefined f w'
           | Returns u w2 \<Rightarrow> Returns Out_of_memory ((free outptr w2)\<lparr>errno := ENOMEM\<rparr>))"
        using c m True by (subst unpack.simps) (simp add: out_def e_def Let_def)
      show ?thesis
        using qo "1.prems"(2) by (cases out) (auto simp: eq quiet_free)
    next
      case False
      have pres: "\<forall>e' \<in> set (present (rarray[nat i := Some (e\<lparr>r_len := int l2\<rparr>)])).
          length (heap w0) < r_response e'"
        using "1.prems"(3) qn False by (auto dest!: present_update simp: e_def)
      have nb: "\<not> \<not> (0 \<le> i \<and> nat i < length rarray)" using c by simp
      note ih = "1.IH"[OF c(1) c(2) nb c(5) c(6) c(7) m[symmetric] e_def False q1 "1.prems"(2) pres]
      show ?thesis
        using c m False ih
        by (subst unpack.simps) (simp add: e_def Let_def)
    qed
  qed
qed


lemma cluster_request_quiet:
  assumes q: "quiet w0 w" and sock: "clvmd_sock w \<noteq> - 1"
  shows "quiet (add_writes w0 [request_buffer cmd node data len])
           (world_of (cluster_request cmd node data len w))
         \<and> (\<forall>st p n w'. cluster_request cmd node data len w = Returns (st, Some p, n) w'
               \<longrightarrow> length (heap w0) < p)"
proof -
  define W where "W = add_writes w0 [request_buffer cmd node data len]"
  have hW [simp]: "heap W = heap w0" by (simp add: W_def)
  obtain st retbuf args w1 where
    sr: "send_request (request_buffer cmd node data len) w = ((st, retbuf, args), w1)"
    by (cases "send_request (request_buffer cmd node data len) w") auto
  have q1: "quiet W w1" and rb: "retbuf = NULL \<or> length (heap w0) < retbuf"
    using send_request_quiet[OF q sr] by (simp_all add: W_def)
  have qf: "\<And>v. quiet W v \<Longrightarrow> quiet W (if retbuf \<noteq> NULL then free retbuf v else v)"
    using rb by (auto intro: quiet_free)
  show ?thesis
  proof (cases "st = 0 \<or> st = - 2")
    case False
    then show ?thesis
      using sock sr q1 qf[OF q1]
      by (auto simp: cluster_request_def W_def[symmetric] Let_def)
  next
    case True
    show ?thesis
    proof (cases "count_responses args 0")
      case None
      then show ?thesis
        using sock sr q1 True by (auto simp: cluster_request_def W_def[symmetric] Let_def)
    next
      case (Some n)
      obtain outptr w2 where
        m: "malloc (Response_array LVM_SIGNATURE n (replicate (nat n) None)) w1 = (outptr, w2)"
        by (cases "malloc (Response_array LVM_SIGNATURE n (replicate (nat n) None)) w1") auto
      have q2: "quiet W w2" and op: "outptr = NULL \<or> length (heap w0) < outptr"
        using quiet_malloc[OF q1 m] by simp_all
      show ?thesis
      proof (cases "outptr = NULL")
        case True
        then show ?thesis
          using sock sr \<open>st = 0 \<or> st = - 2\<close> Some m qf[OF q2]
          by (auto simp: cluster_request_def W_def[symmetric] Let_def)
      next
        case False
        then have lt: "length (heap W) < outptr" using op by simp
        define out where "out = unpack args 0 (replicate (nat n) None) outptr w2"
        have post: "case out of
            Undefined f w' \<Rightarrow> quiet W w'
          | Returns Out_of_memory w' \<Rightarrow> quiet W w'
          | Returns (Unpacked rarray') w' \<Rightarrow>
              quiet W w' \<and> (\<forall>e \<in> set (present rarray'). length (heap W) < r_response e)"
          unfolding out_def using q2 lt by (intro unpack_quiet) simp_all
        have eq: "cluster_request cmd node data len w =
            (case out of
               Undefined f w' \<Rightarrow> Undefined f w'
             | Returns Out_of_memory w3 \<Rightarrow> Returns (- 1, Some outptr, 0) w3
             | Returns (Unpacked rarray) w3 \<Rightarrow>
                 (let w4 = store outptr (Response_array LVM_SIGNATURE n rarray) w3
                  in Returns (st, Some outptr, n)
                       (if retbuf \<noteq> NULL then free retbuf w4 else w4)))"
          using sock sr \<open>st = 0 \<or> st = - 2\<close> Some m False
          by (auto simp: cluster_request_def out_def Let_def split: outcome.splits unpacked.splits)
        show ?thesis
        proof (cases out)
          case (Undefined f w')
          then show ?thesis using post by (simp add: eq W_def[symmetric])
        next
          case (Returns u w3)
          show ?thesis
          proof (cases u)
            case Out_of_memory
            then show ?thesis using post Returns lt by (simp add: eq W_def[symmetric])
          next
            case (Unpacked rarray)
            have "quiet W (store outptr (Response_array LVM_SIGNATURE n rarray) w3)"
              using post Returns Unpacked lt by (intro quiet_store) auto
            then show ?thesis
              using Returns Unpacked lt qf by (simp add: eq W_def[symmetric] Let_def)
          qed
        qed
      qed
    qed
  qed
qed


lemma read_entry_slot:
  "read_entry p i w = Inr e \<Longrightarrow>
   \<exists>sg n slots. lookup (heap w) p = Some (Response_array sg n slots)
      \<and> 0 \<le> i \<and> nat i < length slots \<and> slots ! nat i = Some e"
  by (auto simp: read_entry_def split: option.splits obj.splits if_splits)

lemma read_entry_points:
  assumes "quiet w0 w" "length (heap w0) < p" "read_entry p i w = Inr e"
  shows "length (heap w0) < r_response e"
proof -
  obtain sg n slots where l: "lookup (heap w) p = Some (Response_array sg n slots)"
    and i: "nat i < length slots" "slots ! nat i = Some e"
    using read_entry_slot[OF assms(3)] by blast
  have "points_behind (length (heap w0)) (Response_array sg n slots)"
    using assms(1,2) l unfolding quiet_def by blast
  moreover have "e \<in> set (present slots)"
    using i by (auto simp: set_present dest: nth_mem)
  ultimately show ?thesis by simp
qed

lemma free_loop_quiet:
  "quiet w0 w \<Longrightarrow> length (heap w0) < p \<Longrightarrow> quiet w0 (world_of (free_loop p i n w))"
proof (induction p i n w rule: free_loop.induct)
  case (1 resp i num w)
  show ?case
  proof (cases "i < num")
    case False
    then show ?thesis using "1.prems" by (subst free_loop.simps) simp
  next
    case True
    show ?thesis
    proof (cases "read_entry resp i w")
      case (Inl f)
      then show ?thesis using True "1.prems" by (subst free_loop.simps) simp
    next
      case (Inr e)
      have "quiet w0 (free (r_response e) w)"
        using read_entry_points[OF "1.prems" Inr] "1.prems"(1) by (intro quiet_free) simp_all
      then show ?thesis
        using True Inr "1.IH"[OF True Inr _ "1.prems"(2)] by (subst free_loop.simps) simp
    qed
  qed
qed

lemma cluster_free_request_quiet:
  assumes q: "quiet w0 w" and lt: "length (heap w0) < p"
  shows "quiet w0 (world_of (cluster_free_request p w))"
proof (cases "lookup (heap w) p")
  case None
  then show ?thesis using q by (simp add: cluster_free_request_def)
next
  case (Some ob)
  show ?thesis
  proof (cases ob)
    case (Response_array sg n slots)
    have "quiet w0 (world_of (free_loop p 0 n w))" by (rule free_loop_quiet[OF q lt])
    then show ?thesis
      using Some Response_array q lt
      by (cases "free_loop p 0 n w") (auto simp: cluster_free_request_def quiet_free)
  qed (use Some q in \<open>simp_all add: cluster_free_request_def\<close>)
qed

lemma free_loop_statics:
  "same_statics w (world_of (free_loop p i n w))"
proof (induction p i n w rule: free_loop.induct)
  case (1 resp i num w)
  show ?case
  proof (cases "i < num")
    case False
    then show ?thesis by (subst free_loop.simps) (simp add: same_statics_def)
  next
    case True
    show ?thesis
    proof (cases "read_entry resp i w")
      case (Inl f)
      then show ?thesis using True by (subst free_loop.simps) (simp add: same_statics_def)
    next
      case (Inr e)
      then show ?thesis
        using True "1.IH"[OF True Inr] by (subst free_loop.simps) (simp add: same_statics_def)
    qed
  qed
qed

lemma cluster_free_request_statics:
  "same_statics w (world_of (cluster_free_request p w))"
proof (cases "lookup (heap w) p")
  case None
  then show ?thesis by (simp add: cluster_free_request_def same_statics_def)
next
  case (Some ob)
  show ?thesis
  proof (cases ob)
    case (Response_array sg n slots)
    have "same_statics w (world_of (free_loop p 0 n w))" by (rule free_loop_statics)
    then show ?thesis
      using Some Response_array
      by (cases "free_loop p 0 n w") (auto simp: cluster_free_request_def same_statics_def)
  qed (use Some in \<open>simp_all add: cluster_free_request_def same_statics_def\<close>)
qed

lemma report_unlock_quiet:
  "quiet w0 w \<Longrightarrow> quiet w0 (world_of (report_unlock i n p w))"
proof (induction i n p w rule: report_unlock.induct)
  case (1 i n p w)
  show ?case
  proof (cases "i < n")
    case False
    then show ?thesis using "1.prems" by (subst report_unlock.simps) simp
  next
    case True
    show ?thesis
    proof (cases "read_entry p i w")
      case (Inl f)
      then show ?thesis using True "1.prems" by (subst report_unlock.simps) simp
    next
      case (Inr u)
      show ?thesis
      proof (cases "r_status u \<noteq> 0")
        case False
        then show ?thesis
          using True Inr "1.IH"(2)[OF True Inr _ "1.prems"] by (subst report_unlock.simps) simp
      next
        case ne: True
        show ?thesis
        proof (cases "read_entry (response w) i w")
          case (Inl f)
          then show ?thesis using True Inr ne "1.prems" by (subst report_unlock.simps) simp
        next
          case e: (Inr e)
          show ?thesis
          proof (cases "read_entry p 0 w")
            case (Inl f)
            then show ?thesis using True Inr ne e "1.prems" by (subst report_unlock.simps) simp
          next
            case u0: (Inr u0)
            then show ?thesis
              using True Inr ne e "1.IH"(1)[OF True Inr ne e u0] "1.prems"
              by (subst report_unlock.simps) simp
          qed
        qed
      qed
    qed
  qed
qed


lemma unlock_node_quiet:
  assumes q: "quiet (add_writes w0 bufs) w" and sock: "clvmd_sock w0 \<noteq> - 1"
    and ur: "\<forall>p. unlock_response = Some p \<longrightarrow> length (heap w0) < p"
  shows "quiet (add_writes w0 (bufs @ (if r_status e = 0
                                       then [request_buffer cmd (r_node e) args len] else [])))
           (world_of (unlock_node e cmd args len unlock_response w))
         \<and> (\<forall>ur' w'. unlock_node e cmd args len unlock_response w = Returns ur' w'
               \<longrightarrow> (\<forall>p. ur' = Some p \<longrightarrow> length (heap w0) < p))"
proof (cases "r_status e = 0")
  case False
  then show ?thesis using q ur by (simp add: unlock_node_def)
next
  case True
  define W where "W = add_writes w0 (bufs @ [request_buffer cmd (r_node e) args len])"
  have hW [simp]: "heap W = heap w0" by (simp add: W_def)
  have sw: "clvmd_sock w \<noteq> - 1" using q sock by (simp add: quiet_def)
  have cr: "quiet W (world_of (cluster_request cmd (r_node e) args len w))"
    and np: "\<And>st p n w'. cluster_request cmd (r_node e) args len w = Returns (st, Some p, n) w'
               \<Longrightarrow> length (heap w0) < p"
    using cluster_request_quiet[OF q sw, of cmd "r_node e" args len]
    by (simp_all add: W_def add_writes_append)
  show ?thesis
  proof (cases "cluster_request cmd (r_node e) args len w")
    case (Undefined f w')
    then show ?thesis using True cr by (simp add: unlock_node_def W_def)
  next
    case (Returns r w1)
    obtain st resp n where r: "r = (st, resp, n)" by (cases r) auto
    define ur' where "ur' = (case resp of None \<Rightarrow> unlock_response | Some p \<Rightarrow> Some p)"
    have q1: "quiet W w1" using cr Returns by simp
    have urn: "\<forall>p. ur' = Some p \<longrightarrow> length (heap w0) < p"
      using ur np[of st _ n w1] Returns r by (auto simp: ur'_def split: option.splits)
    define mid where "mid =
        (if st \<noteq> 0 then
           Returns ()
             (log_verbose (Cluster_command_to_node_failed (r_node e) (errno w1)) w1)
         else
           (case ur' of
              None \<Rightarrow> Undefined Read_uninitialised w1
            | Some p \<Rightarrow>
                (case read_entry p 0 w1 of
                   Inl f \<Rightarrow> Undefined f w1
                 | Inr u \<Rightarrow>
                     if r_status u \<noteq> 0 then
                       Returns ()
                         (log_verbose (Unlock_on_node_failed (r_node e) (r_status u)) w1)
                     else Returns () w1)))"
    have qm: "quiet W (world_of mid)"
      using q1 by (auto simp: mid_def split: option.splits sum.splits)
    have eq: "unlock_node e cmd args len unlock_response w =
        (case mid of
           Undefined f w' \<Rightarrow> Undefined f w'
         | Returns u w2 \<Rightarrow>
             (case ur' of
                None \<Rightarrow> Undefined Read_uninitialised w2
              | Some p \<Rightarrow>
                  (case cluster_free_request p w2 of
                     Undefined f w' \<Rightarrow> Undefined f w'
                   | Returns r w3 \<Rightarrow> Returns ur' w3)))"
      unfolding unlock_node_def mid_def ur'_def using True Returns r by (simp add: Let_def)
    show ?thesis
    proof (cases mid)
      case (Undefined f w')
      then show ?thesis using qm True by (simp add: eq W_def)
    next
      case m: (Returns u w2)
      show ?thesis
      proof (cases ur')
        case None
        then show ?thesis using qm m True by (simp add: eq W_def)
      next
        case (Some p)
        then have lt: "length (heap W) < p" using urn by simp
        have "quiet W (world_of (cluster_free_request p w2))"
          using qm m lt by (intro cluster_free_request_quiet) simp_all
        then show ?thesis
          using m Some True urn
          by (cases "cluster_free_request p w2") (simp_all add: eq W_def)
      qed
    qed
  qed
qed


lemma read_entry_quiet:
  "quiet w0 w \<Longrightarrow> p \<le> length (heap w0) \<Longrightarrow> read_entry p i w = read_entry p i w0"
  by (simp add: read_entry_def quiet_def)

lemma read_entry_response:
  "read_entry (response w) i w = Inr e \<Longrightarrow>
   0 \<le> i \<and> nat i < length (slots_of w) \<and> slots_of w ! nat i = Some e
   \<and> response w \<le> length (heap w)"
  by (auto simp: slots_of_def dest!: read_entry_slot dest: lookup_bound)

lemma present_drop_take:
  "n < m \<Longrightarrow> n < length slots \<Longrightarrow> slots ! n = Some e \<Longrightarrow>
   present (drop n (take m slots)) = e # present (drop (Suc n) (take m slots))"
  by (subst Cons_nth_drop_Suc[symmetric]) simp_all


lemma unlock_all_quiet:
  assumes q: "quiet (add_writes w0 bufs) w" and sock: "clvmd_sock w0 \<noteq> - 1"
  shows "quiet (add_writes w0 (bufs @ [request_buffer cmd [] args len]))
           (world_of (unlock_all cmd args len w))"
proof -
  define W where "W = add_writes w0 (bufs @ [request_buffer cmd [] args len])"
  have hW [simp]: "heap W = heap w0" by (simp add: W_def)
  have sw: "clvmd_sock w \<noteq> - 1" using q sock by (simp add: quiet_def)
  have cr: "quiet W (world_of (cluster_request cmd [] args len w))"
    and np: "\<And>st p n w'. cluster_request cmd [] args len w = Returns (st, Some p, n) w'
               \<Longrightarrow> length (heap w0) < p"
    using cluster_request_quiet[OF q sw, of cmd "[]" args len]
    by (simp_all add: W_def add_writes_append)
  show ?thesis
  proof (cases "cluster_request cmd [] args len w")
    case (Undefined f w')
    then show ?thesis using cr by (simp add: unlock_all_def W_def)
  next
    case (Returns r w1)
    obtain st resp n where r: "r = (st, resp, n)" by (cases r) auto
    have q1: "quiet W w1" using cr Returns by simp
    define mid where "mid =
        (if st \<noteq> 0 then Returns () (log_verbose (Cluster_command_failed (errno w1)) w1)
         else
           (case resp of
              None \<Rightarrow> Undefined Read_uninitialised w1
            | Some p \<Rightarrow> report_unlock 0 n p w1))"
    have qm: "quiet W (world_of mid)"
      using q1 report_unlock_quiet[OF q1] by (auto simp: mid_def split: option.splits)
    have eq: "unlock_all cmd args len w =
        (case mid of
           Undefined f w' \<Rightarrow> Undefined f w'
         | Returns u w2 \<Rightarrow>
             (case resp of
                None \<Rightarrow> Undefined Read_uninitialised w2
              | Some p \<Rightarrow>
                  (case cluster_free_request p w2 of
                     Undefined f w' \<Rightarrow> Undefined f w'
                   | Returns r w3 \<Rightarrow> Returns () w3)))"
      unfolding unlock_all_def mid_def using Returns r by simp
    show ?thesis
    proof (cases mid)
      case (Undefined f w')
      then show ?thesis using qm by (simp add: eq W_def)
    next
      case m: (Returns u w2)
      show ?thesis
      proof (cases resp)
        case None
        then show ?thesis using qm m by (simp add: eq W_def)
      next
        case (Some p)
        then have lt: "length (heap W) < p" using np[of st p n w1] Returns r by simp
        have "quiet W (world_of (cluster_free_request p w2))"
          using qm m lt by (intro cluster_free_request_quiet) simp_all
        then show ?thesis
          using m Some by (cases "cluster_free_request p w2") (simp_all add: eq W_def)
      qed
    qed
  qed
qed

lemma count_failed_counts:
  "count_failed i num failed w = Returns f w' \<Longrightarrow> 0 \<le> i \<Longrightarrow>
   w' = w \<and> f = failed + int (length (filter (\<lambda>e. r_status e \<noteq> 0)
                     (present (drop (nat i) (take (nat num) (slots_of w))))))"
proof (induction "nat (num - i)" arbitrary: i failed)
  case 0
  then have "\<not> i < num" by simp
  moreover then have "drop (nat i) (take (nat num) (slots_of w)) = []" by simp
  ultimately show ?case using "0.prems"(1) by (subst (asm) count_failed.simps) simp
next
  case (Suc k)
  then have lt: "i < num" by linarith
  from Suc.prems(1) lt obtain e where e: "read_entry (response w) i w = Inr e"
    by (subst (asm) count_failed.simps) (auto split: sum.splits)
  have rest: "count_failed (i + 1) num (if r_status e \<noteq> 0 then failed + 1 else failed) w
      = Returns f w'"
    using Suc.prems(1) lt e by (subst (asm) count_failed.simps) (auto split: if_splits)
  have sl: "nat i < length (slots_of w)" "slots_of w ! nat i = Some e"
    using read_entry_response[OF e] by simp_all
  have pr: "present (drop (nat i) (take (nat num) (slots_of w)))
      = e # present (drop (Suc (nat i)) (take (nat num) (slots_of w)))"
    using lt Suc.prems(2) sl by (intro present_drop_take) simp_all
  have k: "k = nat (num - (i + 1))" using Suc.hyps(2) by simp
  have "nat (i + 1) = Suc (nat i)" using Suc.prems(2) by simp
  then show ?case
    using Suc.hyps(1)[OF k rest] Suc.prems(2) by (simp add: pr)
qed


lemma sent_quiet:
  "quiet (add_writes w bufs) w2 \<Longrightarrow> same_statics w2 w' \<Longrightarrow> sent w w' = bufs"
  by (simp add: sent_def quiet_def same_statics_def)




lemma count_failed_world: "world_of (count_failed i num failed w) = w"
proof (induction i num failed w rule: count_failed.induct)
  case (1 i num failed w)
  show ?case
  proof (cases "i < num")
    case False
    then show ?thesis by (subst count_failed.simps) simp
  next
    case True
    show ?thesis
    proof (cases "read_entry (response w) i w")
      case (Inl f)
      then show ?thesis using True by (subst count_failed.simps) simp
    next
      case (Inr e)
      then show ?thesis
        using True "1.IH"(1)[OF True Inr] "1.IH"(2)[OF True Inr]
        by (subst count_failed.simps) simp
    qed
  qed
qed

lemma unlock_nodes_sent_any:
  "quiet (add_writes w0 bufs) w \<Longrightarrow> clvmd_sock w0 \<noteq> - 1 \<Longrightarrow>
   \<forall>p. unlock_response = Some p \<longrightarrow> length (heap w0) < p \<Longrightarrow>
   0 \<le> i \<Longrightarrow> response w0 \<le> length (heap w0) \<Longrightarrow>
   \<exists>k. quiet (add_writes w0 (bufs @ take k (map (\<lambda>e. request_buffer cmd (r_node e) args len)
            (filter (\<lambda>e. r_status e = 0)
               (present (drop (nat i) (take (nat num) (slots_of w0))))))))
         (world_of (unlock_nodes i num cmd args len unlock_response w))"
proof (induction "nat (num - i)" arbitrary: i bufs unlock_response w)
  case 0
  then have "\<not> i < num" by simp
  then show ?case
    using "0.prems"(1) by (subst unlock_nodes.simps) (auto intro: exI[of _ 0])
next
  case (Suc k)
  then have lt: "i < num" by linarith
  have rw: "read_entry (response w) i w = read_entry (response w0) i w0"
    using Suc.prems(1,5) read_entry_quiet[of "add_writes w0 bufs" w "response w0" i]
    by (simp add: quiet_def read_entry_def)
  show ?case
  proof (cases "read_entry (response w) i w")
    case (Inl f)
    then show ?thesis
      using lt Suc.prems(1) by (subst unlock_nodes.simps) (auto intro: exI[of _ 0])
  next
    case (Inr e)
    define be where "be = (if r_status e = 0 then [request_buffer cmd (r_node e) args len] else [])"
    define rest where "rest = map (\<lambda>e. request_buffer cmd (r_node e) args len)
            (filter (\<lambda>e. r_status e = 0)
               (present (drop (Suc (nat i)) (take (nat num) (slots_of w0)))))"
    have sl: "nat i < length (slots_of w0)" "slots_of w0 ! nat i = Some e"
      using read_entry_response[of w0 i e] Inr rw by simp_all
    have pr: "present (drop (nat i) (take (nat num) (slots_of w0)))
        = e # present (drop (Suc (nat i)) (take (nat num) (slots_of w0)))"
      using lt Suc.prems(4) sl by (intro present_drop_take) simp_all
    have expected: "map (\<lambda>e. request_buffer cmd (r_node e) args len)
            (filter (\<lambda>e. r_status e = 0)
               (present (drop (nat i) (take (nat num) (slots_of w0))))) = be @ rest"
      by (simp add: pr be_def rest_def)
    have un: "quiet (add_writes w0 (bufs @ be))
                (world_of (unlock_node e cmd args len unlock_response w))"
      and ur1: "\<And>ur' w'. unlock_node e cmd args len unlock_response w = Returns ur' w'
                 \<Longrightarrow> \<forall>p. ur' = Some p \<longrightarrow> length (heap w0) < p"
      using unlock_node_quiet[OF Suc.prems(1,2,3), of e cmd args len]
      by (auto simp: be_def)
    show ?thesis
    proof (cases "unlock_node e cmd args len unlock_response w")
      case (Undefined f w1)
      have "quiet (add_writes w0 (bufs @ take (length be) (be @ rest))) w1"
        using un Undefined by simp
      then show ?thesis
        using lt Inr Undefined unfolding expected
        by (subst unlock_nodes.simps) (auto intro: exI[of _ "length be"])
    next
      case (Returns ur' w1)
      have q1: "quiet (add_writes w0 (bufs @ be)) w1" using un Returns by simp
      have k: "k = nat (num - (i + 1))" using Suc.hyps(2) by simp
      have n1: "nat (i + 1) = Suc (nat i)" using Suc.prems(4) by simp
      obtain k' where "quiet (add_writes w0 ((bufs @ be) @ take k' rest))
          (world_of (unlock_nodes (i + 1) num cmd args len ur' w1))"
        using Suc.hyps(1)[OF k q1 Suc.prems(2) ur1[OF Returns] _ Suc.prems(5)]
          Suc.prems(4)
        by (auto simp: rest_def n1)
      then have "quiet (add_writes w0 (bufs @ take (length be + k') (be @ rest)))
          (world_of (unlock_nodes (i + 1) num cmd args len ur' w1))"
        by simp
      then show ?thesis
        using lt Inr Returns unfolding expected
        by (subst unlock_nodes.simps) (auto intro: exI[of _ "length be + k'"])
    qed
  qed
qed


lemma same_statics_refl [simp]: "same_statics w w"
  by (simp add: same_statics_def)

lemma unlock_for_cluster_sent_any:
  assumes held: "num_responses w \<noteq> 0"
    and sock: "clvmd_sock w \<noteq> - 1"
    and scope: "scope = CHR ''V'' \<or> scope = CHR ''L'' \<or> scope = CHR ''G''"
  shows "\<exists>k. sent w (world_of (unlock_for_cluster scope name suspend w)) = take k
     (let cmd = (if suspend \<noteq> 0 then CLVMD_CMD_UNLOCK_RESUME else CLVMD_CMD_UNLOCK);
          len = fst (lock_args scope name); args = snd (lock_args scope name)
      in if \<exists>e \<in> set (stored w). r_status e \<noteq> 0
         then map (\<lambda>e. request_buffer cmd (r_node e) args len)
                (filter (\<lambda>e. r_status e = 0) (stored w))
         else [request_buffer cmd [] args len])"
    and "num_responses (world_of (unlock_for_cluster scope name suspend w)) = num_responses w"
    and "response (world_of (unlock_for_cluster scope name suspend w)) = response w"
proof -
  define cmd where "cmd = (if suspend \<noteq> 0 then CLVMD_CMD_UNLOCK_RESUME else CLVMD_CMD_UNLOCK)"
  define len where "len = fst (lock_args scope name)"
  define args where "args = snd (lock_args scope name)"
  define expected where "expected =
      (if \<exists>e \<in> set (stored w). r_status e \<noteq> 0
       then map (\<lambda>e. request_buffer cmd (r_node e) args len)
              (filter (\<lambda>e. r_status e = 0) (stored w))
       else [request_buffer cmd [] args len])"
  have la: "lock_args scope name = (len, args)" by (simp add: len_def args_def)
  define mid where "mid = (\<lambda>failed w1.
      if failed \<noteq> (0::int) then unlock_nodes 0 (num_responses w1) cmd args len None w1
      else unlock_all cmd args len w1)"
  have eq: "unlock_for_cluster scope name suspend w =
      (case count_failed 0 (num_responses w) 0 w of
         Undefined f w' \<Rightarrow> Undefined f w'
       | Returns failed w1 \<Rightarrow>
           (case mid failed w1 of
              Undefined f w' \<Rightarrow> Undefined f w'
            | Returns u w2 \<Rightarrow>
                (case cluster_free_request (response w2) w2 of
                   Undefined f w' \<Rightarrow> Undefined f w'
                 | Returns r w3 \<Rightarrow> Returns 0 w3)))"
    unfolding unlock_for_cluster_def mid_def cmd_def
    using held scope la by (auto simp: Let_def)
  have goal: "(\<exists>k. sent w (world_of (unlock_for_cluster scope name suspend w)) = take k expected)
      \<and> (num_responses (world_of (unlock_for_cluster scope name suspend w)) = num_responses w
          \<and> response (world_of (unlock_for_cluster scope name suspend w)) = response w)"
  proof (cases "count_failed 0 (num_responses w) 0 w")
    case (Undefined f w1)
    then have w1: "w1 = w" using count_failed_world[of 0 "num_responses w" 0 w] by simp
    then have "sent w (world_of (unlock_for_cluster scope name suspend w)) = take 0 expected"
      using Undefined by (simp add: eq sent_def)
    then show ?thesis using w1 Undefined by (auto simp: eq)
  next
    case (Returns failed w1)
    have w1: "w1 = w"
      and failed: "failed = int (length (filter (\<lambda>e. r_status e \<noteq> 0) (stored w)))"
      using count_failed_counts[OF Returns] by (simp_all add: stored_def)
    have fz: "failed \<noteq> 0 \<longleftrightarrow> (\<exists>e \<in> set (stored w). r_status e \<noteq> 0)"
      by (auto simp: failed filter_empty_conv)
    have "\<exists>k. quiet (add_writes w (take k expected)) (world_of (mid failed w))"
    proof (cases "failed \<noteq> 0")
      case True
      then have "stored w \<noteq> []" using fz by auto
      then have "lookup (heap w) (response w) \<noteq> None"
        by (auto simp: stored_def slots_of_def split: option.splits)
      then have rb: "response w \<le> length (heap w)" by (auto dest: lookup_bound)
      have "\<exists>k. quiet (add_writes w ([] @ take k (map (\<lambda>e. request_buffer cmd (r_node e) args len)
            (filter (\<lambda>e. r_status e = 0)
               (present (drop (nat 0) (take (nat (num_responses w)) (slots_of w))))))))
          (world_of (unlock_nodes 0 (num_responses w) cmd args len None w))"
        using sock rb by (intro unlock_nodes_sent_any) simp_all
      then show ?thesis
        using True fz by (simp add: mid_def expected_def stored_def)
    next
      case False
      have "quiet (add_writes w ([] @ [request_buffer cmd [] args len]))
              (world_of (unlock_all cmd args len w))"
        using sock by (intro unlock_all_quiet) simp_all
      then have "quiet (add_writes w (take 1 expected)) (world_of (mid failed w))"
        using False fz by (simp add: mid_def expected_def)
      then show ?thesis by blast
    qed
    then obtain k where qk: "quiet (add_writes w (take k expected)) (world_of (mid failed w))"
      by blast
    have "sent w (world_of (unlock_for_cluster scope name suspend w)) = take k expected
        \<and> (num_responses (world_of (unlock_for_cluster scope name suspend w)) = num_responses w
          \<and> response (world_of (unlock_for_cluster scope name suspend w)) = response w)"
    proof (cases "mid failed w")
      case (Undefined f w2)
      then show ?thesis
        using qk Returns w1
        by (simp add: eq sent_quiet[where ?w2.0 = w2]) (simp add: quiet_def same_statics_def)
    next
      case m: (Returns u w2)
      have ss: "same_statics w2 (world_of (cluster_free_request (response w2) w2))"
        by (rule cluster_free_request_statics)
      have "sent w (world_of (cluster_free_request (response w2) w2)) = take k expected"
        using qk m ss by (intro sent_quiet[where ?w2.0 = w2]) simp_all
      moreover have "num_responses (world_of (cluster_free_request (response w2) w2))
            = num_responses w
          \<and> response (world_of (cluster_free_request (response w2) w2)) = response w"
        using qk m ss by (simp add: quiet_def same_statics_def)
      ultimately show ?thesis
        using Returns w1 m
        by (cases "cluster_free_request (response w2) w2") (simp_all add: eq)
    qed
    then show ?thesis by blast
  qed
  from goal show "\<exists>k. sent w (world_of (unlock_for_cluster scope name suspend w)) = take k
     (let cmd = (if suspend \<noteq> 0 then CLVMD_CMD_UNLOCK_RESUME else CLVMD_CMD_UNLOCK);
          len = fst (lock_args scope name); args = snd (lock_args scope name)
      in if \<exists>e \<in> set (stored w). r_status e \<noteq> 0
         then map (\<lambda>e. request_buffer cmd (r_node e) args len)
                (filter (\<lambda>e. r_status e = 0) (stored w))
         else [request_buffer cmd [] args len])"
    unfolding expected_def cmd_def len_def args_def Let_def by (rule conjunct1)
  from goal show "num_responses (world_of (unlock_for_cluster scope name suspend w)) = num_responses w"
    and "response (world_of (unlock_for_cluster scope name suspend w)) = response w"
    by simp_all
qed

lemma unlock_for_cluster_never_resets:
  assumes "clvmd_sock w \<noteq> - 1"
  shows "num_responses (world_of (unlock_for_cluster scope name suspend w)) = num_responses w
         \<and> response (world_of (unlock_for_cluster scope name suspend w)) = response w"
proof (cases "num_responses w \<noteq> 0
    \<and> (scope = CHR ''V'' \<or> scope = CHR ''L'' \<or> scope = CHR ''G'')")
  case True
  then show ?thesis
    using unlock_for_cluster_sent_any(2,3)[OF _ assms, of scope name suspend] by simp
next
  case False
  then show ?thesis by (auto simp: unlock_for_cluster_def)
qed

subsection \<open>The header of a request\<close>

text \<open>
  C9: in the header \<^verbatim>\<open>build_header\<close> builds, target \<open>"*"\<close> gives an empty node
  name with the local flag off; target \<open>"."\<close> gives an empty node name with the local
  flag on; every other target is copied as it is, with its terminator, and the local
  flag is off (so a C string, which holds no NUL, is the node name on the wire).
\<close>

theorem build_header_targets:
  "h_node (build_header cmd (Some ''*'') data len) = [NUL]
   \<and> wire_node (build_header cmd (Some ''*'') data len) = []
   \<and> CLVMD_FLAG_LOCAL \<notin> h_flags (build_header cmd (Some ''*'') data len)
   \<and> h_node (build_header cmd (Some ''.'') data len) = [NUL]
   \<and> wire_node (build_header cmd (Some ''.'') data len) = []
   \<and> CLVMD_FLAG_LOCAL \<in> h_flags (build_header cmd (Some ''.'') data len)
   \<and> (n \<noteq> ''*'' \<and> n \<noteq> ''.'' \<longrightarrow>
        h_node (build_header cmd (Some n) data len) = n @ [NUL]
        \<and> CLVMD_FLAG_LOCAL \<notin> h_flags (build_header cmd (Some n) data len))
   \<and> (n \<noteq> ''*'' \<and> n \<noteq> ''.'' \<and> NUL \<notin> set n \<longrightarrow>
        wire_node (build_header cmd (Some n) data len) = n)"
  by (simp add: build_header_def wire_node_def takeWhile_cstring)

theorem build_header_targets_witness:
  "h_node (build_header CLVMD_CMD_LOCK (Some ''node7'') [] 0) = ''node7'' @ [NUL]
   \<and> wire_node (build_header CLVMD_CMD_LOCK (Some ''node7'') [] 0) = ''node7''
   \<and> CLVMD_FLAG_LOCAL \<notin> h_flags (build_header CLVMD_CMD_LOCK (Some ''node7'') [] 0)"
  using build_header_targets [of CLVMD_CMD_LOCK "[]" 0 "''node7''"] by simp

subsection \<open>Unlock without a lock\<close>

text \<open>
  C7: when \<^verbatim>\<open>num_responses\<close> is zero, \<^verbatim>\<open>unlock_for_cluster\<close> returns 0 and
  leaves the world as it is (nothing is written to or read from the socket, nothing is
  freed), whatever the scope, the name and the suspend flag are.
\<close>

theorem unlock_without_lock:
  "num_responses w = 0 \<Longrightarrow> unlock_for_cluster scope name suspend w = Returns 0 w"
  by (simp add: unlock_for_cluster_def)

theorem unlock_without_lock_witness:
  "unlock_for_cluster CHR ''X'' (Some ''vg01'') 1 (start [] [] [] [])
     = Returns 0 (start [] [] [] [])"
  using unlock_without_lock [of "start [] [] [] []" "CHR ''X''" "Some ''vg01''" 1]
  by (simp add: start_def)

subsection \<open>The worlds of the examples\<close>

lemma int_bytes_simps [simp]:
  "int_bytes 0 = [NUL, NUL, NUL, NUL]"
  "int_bytes (- 16) = [CHR 0xF0, CHR 0xFF, CHR 0xFF, CHR 0xFF]"
  by code_simp+

lemmas run_defs = start_def reply_of_def reply_record_def lock_for_cluster_def
  lock_args_def cluster_request_def request_buffer_def build_header_def wire_node_def
  send_request_def sock_write_def read_header_def malloc_def read_args.simps sock_read_def
  count_responses.simps c_strlen_def unpack.simps read_int_def store_def free_def
  hostdown_loop.simps read_entry_def lookup_def open_local_sock_def to_stderr_def
  log_verbose_def free_produced.simps cluster_free_request_def free_loop.simps
  unlock_for_cluster_def count_failed.simps unlock_nodes.simps unlock_node_def
  unlock_all_def report_unlock.simps Let_def

lemma partly_locked_world:
  "partly_locked =
     \<lparr>clvmd_sock = 3, errno = 0, num_responses = 3, response = 2, clustered = 0,
      suspended = 0,
      heap =
        [None,
         Some (Response_array LVM_SIGNATURE 3
                [Some \<lparr>r_node = ''n1'', r_status = 0, r_response = 3, r_len = 0\<rparr>,
                 Some \<lparr>r_node = ''n2'', r_status = - 16, r_response = 4, r_len = 0\<rparr>,
                 Some \<lparr>r_node = ''n3'', r_status = 0, r_response = 5, r_len = 0\<rparr>]),
         Some (Response_string [NUL]), Some (Response_string [NUL]),
         Some (Response_string [NUL])],
      trace =
        [Ev_socket, Ev_connect 3,
         Ev_write 3
          \<lparr>h_cmd = CLVMD_CMD_LOCK, h_status = 0, h_flags = {}, h_clientid = 0,
             h_arglen = 6, h_node = NUL # ''Vvg01'' @ [NUL]\<rparr>,
         Ev_read 3, Ev_read 3, Ev_free 1],
      opens = [], close_errno = None, writes = [],
      replies =
        [(Hdr 0 9 CHR ''n'', [Body_bytes (CHR ''1'' # replicate 7 NUL)]),
         (Hdr 0 9 CHR ''n'', [Body_bytes (CHR ''3'' # replicate 7 NUL)])],
      mallocs = []\<rparr>"
  by (simp add: partly_locked_def three_nodes_def run_defs numeral_eq_Suc)

lemma fully_locked_world:
  "fully_locked =
     \<lparr>clvmd_sock = 3, errno = 0, num_responses = 2, response = 2, clustered = 0,
      suspended = 0,
      heap =
        [None,
         Some (Response_array LVM_SIGNATURE 2
                [Some \<lparr>r_node = ''n1'', r_status = 0, r_response = 3, r_len = 0\<rparr>,
                 Some \<lparr>r_node = ''n2'', r_status = 0, r_response = 4, r_len = 0\<rparr>]),
         Some (Response_string [NUL]), Some (Response_string [NUL])],
      trace =
        [Ev_socket, Ev_connect 3,
         Ev_write 3
          \<lparr>h_cmd = CLVMD_CMD_LOCK_SUSPEND, h_status = 0, h_flags = {}, h_clientid = 0,
             h_arglen = 6, h_node = NUL # ''Vvg01'' @ [NUL]\<rparr>,
         Ev_read 3, Ev_read 3, Ev_free 1],
      opens = [], close_errno = None, writes = [],
      replies =
        [(Hdr 0 17 CHR ''n'',
          [Body_bytes (CHR ''1'' # replicate 6 NUL @ ''n2'' @ replicate 7 NUL)])],
      mallocs = []\<rparr>"
  by (simp add: fully_locked_def run_defs numeral_eq_Suc)


subsection \<open>Freeing a response array\<close>

text \<open>
  C8: \<^verbatim>\<open>cluster_free_request\<close> returns -1 with \<open>errno = EINVAL\<close> and frees
  nothing (the world is otherwise unchanged) when the pointer is \<^verbatim>\<open>NULL\<close> or the
  \<^verbatim>\<open>int\<close> two places in front of it is not \<^verbatim>\<open>LVM_SIGNATURE\<close>.  When
  it is the signature, the call frees the response buffer of each of the first \<open>num\<close>
  entries, \<open>num\<close> being the count in front of the array, then the array, and returns
  0.  The array is taken to hold \<open>num\<close> written entries, none of which points to the
  array itself; the pointer is taken to lie in an allocation, so that the signature can
  be read.
\<close>

theorem cluster_free_request_checks:
  "cluster_free_request NULL w = Returns (- 1) (w\<lparr>errno := EINVAL\<rparr>)
   \<and> (lookup (heap w) resp = Some (Response_array sg num slots) \<and> sg \<noteq> LVM_SIGNATURE \<longrightarrow>
        cluster_free_request resp w = Returns (- 1) (w\<lparr>errno := EINVAL\<rparr>))
   \<and> (lookup (heap w) resp = Some (Response_array LVM_SIGNATURE num (map Some es))
        \<and> 0 \<le> num \<and> nat num \<le> length es
        \<and> (\<forall>e \<in> set (take (nat num) es). r_response e \<noteq> resp) \<longrightarrow>
        (\<exists>w'. cluster_free_request resp w = Returns 0 w'
           \<and> w' = free resp (fold (\<lambda>e. free (r_response e)) (take (nat num) es) w)
           \<and> trace w' = trace w
                @ map Ev_free (filter (\<lambda>p. p \<noteq> NULL) (map r_response (take (nat num) es)))
                @ [Ev_free resp]))"
proof (intro conjI impI)
  show "cluster_free_request NULL w = Returns (- 1) (w\<lparr>errno := EINVAL\<rparr>)"
    by (simp add: cluster_free_request_def)
next
  assume "lookup (heap w) resp = Some (Response_array sg num slots) \<and> sg \<noteq> LVM_SIGNATURE"
  then show "cluster_free_request resp w = Returns (- 1) (w\<lparr>errno := EINVAL\<rparr>)"
    by (auto simp: cluster_free_request_def dest: lookup_bound)
next
  assume a: "lookup (heap w) resp = Some (Response_array LVM_SIGNATURE num (map Some es))
        \<and> 0 \<le> num \<and> nat num \<le> length es
        \<and> (\<forall>e \<in> set (take (nat num) es). r_response e \<noteq> resp)"
  then have "free_loop resp (int 0) num w
     = Returns () (fold (\<lambda>e. free (r_response e)) (drop 0 (take (nat num) es)) w)"
    by (intro free_loop_frees) auto
  moreover have "resp \<noteq> NULL" using a by (auto dest: lookup_bound)
  ultimately show "\<exists>w'. cluster_free_request resp w = Returns 0 w'
           \<and> w' = free resp (fold (\<lambda>e. free (r_response e)) (take (nat num) es) w)
           \<and> trace w' = trace w
                @ map Ev_free (filter (\<lambda>p. p \<noteq> NULL) (map r_response (take (nat num) es)))
                @ [Ev_free resp]"
    using a by (simp add: cluster_free_request_def trace_fold_free) (simp add: free_def trace_fold_free)
qed

theorem cluster_free_request_checks_witness:
  "cluster_free_request 1 foreign_world = Returns (- 1) (foreign_world\<lparr>errno := EINVAL\<rparr>)
   \<and> (\<exists>w'. cluster_free_request 2 partly_locked = Returns 0 w'
          \<and> trace w' = trace partly_locked @ [Ev_free 3, Ev_free 4, Ev_free 5, Ev_free 2]
          \<and> heap w' = [None, None, None, None, None])"
proof -
  have f: "lookup (heap foreign_world) 1
      = Some (Response_array 7 1
                [Some \<lparr>r_node = ''n1'', r_status = 0, r_response = 2, r_len = 0\<rparr>])
    \<and> (7::int) \<noteq> LVM_SIGNATURE"
    by (simp add: foreign_world_def start_def lookup_def)
  have p: "lookup (heap partly_locked) 2
      = Some (Response_array LVM_SIGNATURE 3
                (map Some [\<lparr>r_node = ''n1'', r_status = 0, r_response = 3, r_len = 0\<rparr>,
                           \<lparr>r_node = ''n2'', r_status = - 16, r_response = 4, r_len = 0\<rparr>,
                           \<lparr>r_node = ''n3'', r_status = 0, r_response = 5, r_len = 0\<rparr>]))"
    by (simp add: partly_locked_world lookup_def)
  show ?thesis
    using cluster_free_request_checks[of foreign_world 1 7 1
        "[Some \<lparr>r_node = ''n1'', r_status = 0, r_response = 2, r_len = 0\<rparr>]"] f
      cluster_free_request_checks[of partly_locked 2 _ 3 _
        "[\<lparr>r_node = ''n1'', r_status = 0, r_response = 3, r_len = 0\<rparr>,
          \<lparr>r_node = ''n2'', r_status = - 16, r_response = 4, r_len = 0\<rparr>,
          \<lparr>r_node = ''n3'', r_status = 0, r_response = 5, r_len = 0\<rparr>]"] p
    by (simp add: free_def) (simp add: partly_locked_world)
qed

subsection \<open>Which nodes are unlocked\<close>




text \<open>
  A call that does not return: when an exchange of the loop of lines 434-460 fails,
  \<^verbatim>\<open>cluster_request\<close> has not written \<^verbatim>\<open>unlock_response\<close>, which
  is declared without a value at line 391, and line 453 passes it to
  \<^verbatim>\<open>cluster_free_request\<close>, which reads through it.  With a short write for
  the first node of the session with three nodes, the request to \<open>n1\<close> is the only
  one written when that happens.
\<close>

lemma unlock_after_failed_exchange:
  "\<exists>w'. unlock_for_cluster CHR ''V'' (Some ''vg01'') 0 (partly_locked\<lparr>writes := [Write_short]\<rparr>)
          = Undefined Read_uninitialised w'
        \<and> map (\<lambda>b. (h_cmd b, wire_node b)) (sent partly_locked w')
            = [(CLVMD_CMD_UNLOCK, ''n1'')]"
  by (simp add: partly_locked_world run_defs numeral_eq_Suc sent_def)

subsection \<open>What a lock leaves behind\<close>

lemma written_map_log [simp]: "written (map Ev_log ms) = []"
  by (induction ms) auto

lemma hostdown_loop_world:
  "\<exists>ms. world_of (hostdown_loop i n st w) = w\<lparr>trace := trace w @ map Ev_log ms\<rparr>"
proof (induction i n st w rule: hostdown_loop.induct)
  case (1 i num status w)
  have triv: "\<exists>ms. w = w\<lparr>trace := trace w @ map Ev_log ms\<rparr>"
    by (rule exI[of _ "[]"]) simp
  show ?case
  proof (cases "i < num")
    case False
    then show ?thesis using triv by (subst hostdown_loop.simps) simp
  next
    case True
    show ?thesis
    proof (cases "read_entry (response w) i w")
      case (Inl f)
      then show ?thesis using True triv by (subst hostdown_loop.simps) simp
    next
      case (Inr e)
      show ?thesis
      proof (cases "r_status e = - EHOSTDOWN")
        case False
        then show ?thesis
          using True Inr "1.IH"(2)[OF True Inr] by (subst hostdown_loop.simps) simp
      next
        case hd: True
        obtain ms where "world_of (hostdown_loop (i + 1) num (- 1)
              (log_verbose (Not_running_on_node (r_node e)) w))
            = (log_verbose (Not_running_on_node (r_node e)) w)
                \<lparr>trace := trace (log_verbose (Not_running_on_node (r_node e)) w)
                     @ map Ev_log ms\<rparr>"
          using "1.IH"(1)[OF True Inr hd] by blast
        then have "world_of (hostdown_loop (i + 1) num (- 1)
              (log_verbose (Not_running_on_node (r_node e)) w))
            = w\<lparr>trace := trace w @ map Ev_log (Not_running_on_node (r_node e) # ms)\<rparr>"
          by (simp add: log_verbose_def)
        then have "\<exists>ms. world_of (hostdown_loop (i + 1) num (- 1)
              (log_verbose (Not_running_on_node (r_node e)) w))
            = w\<lparr>trace := trace w @ map Ev_log ms\<rparr>"
          by blast
        then show ?thesis
          using True Inr hd by (subst hostdown_loop.simps) simp
      qed
    qed
  qed
qed

lemma cluster_request_opens:
  "clvmd_sock w = - 1 \<Longrightarrow> opens w = Connects fd # rest \<Longrightarrow>
   cluster_request cmd node data len w
     = cluster_request cmd node data len
         (w\<lparr>opens := rest, trace := trace w @ [Ev_socket, Ev_connect fd], clvmd_sock := int fd\<rparr>)"
  by (simp add: cluster_request_def open_local_sock_def)

lemma cluster_request_sent:
  assumes "clvmd_sock w \<noteq> - 1 \<or> (\<exists>fd rest. opens w = Connects fd # rest)"
  shows "sent w (world_of (cluster_request cmd node data len w))
           = [request_buffer cmd node data len]"
proof (cases "clvmd_sock w \<noteq> - 1")
  case True
  then show ?thesis
    using cluster_request_quiet[OF quiet_refl True, of cmd node data len]
    by (simp add: sent_def quiet_def)
next
  case False
  then obtain fd rest where o: "opens w = Connects fd # rest" using assms by blast
  define wo where "wo = w\<lparr>opens := rest, trace := trace w @ [Ev_socket, Ev_connect fd],
                          clvmd_sock := int fd\<rparr>"
  have "clvmd_sock wo \<noteq> - 1" by (simp add: wo_def)
  then have "sent wo (world_of (cluster_request cmd node data len wo))
           = [request_buffer cmd node data len]"
    using cluster_request_quiet[OF quiet_refl, of wo cmd node data len]
    by (simp add: sent_def quiet_def)
  moreover have "cluster_request cmd node data len w = cluster_request cmd node data len wo"
    unfolding wo_def using False o by (intro cluster_request_opens) simp_all
  moreover have "written (trace wo) = written (trace w)" by (simp add: wo_def)
  ultimately show ?thesis by (simp add: sent_def)
qed

lemma lock_for_cluster_written:
  assumes "scope = CHR ''V'' \<or> scope = CHR ''L'' \<or> scope = CHR ''G''"
  shows "written (trace (world_of (lock_for_cluster scope name suspend w)))
     = written (trace (world_of (cluster_request
          (if suspend \<noteq> 0 then CLVMD_CMD_LOCK_SUSPEND else CLVMD_CMD_LOCK) []
          (snd (lock_args scope name)) (fst (lock_args scope name)) w)))"
proof -
  define cmd where "cmd = (if suspend \<noteq> 0 then CLVMD_CMD_LOCK_SUSPEND else CLVMD_CMD_LOCK)"
  define len where "len = fst (lock_args scope name)"
  define args where "args = snd (lock_args scope name)"
  have la: "lock_args scope name = (len, args)" by (simp add: len_def args_def)
  show ?thesis
  proof (cases "cluster_request cmd [] args len w")
    case (Undefined f w')
    then show ?thesis
      using assms la by (auto simp: lock_for_cluster_def cmd_def[symmetric] len_def[symmetric] args_def[symmetric])
  next
    case (Returns r w1)
    obtain st resp n where r: "r = (st, resp, n)" by (cases r) auto
    define w2 where "w2 = w1\<lparr>num_responses := n,
        response := (case resp of None \<Rightarrow> response w1 | Some p \<Rightarrow> p)\<rparr>"
    obtain ms where hl: "world_of (hostdown_loop 0 n st w2) = w2\<lparr>trace := trace w2 @ map Ev_log ms\<rparr>"
      using hostdown_loop_world by blast
    have eq: "lock_for_cluster scope name suspend w =
        (case hostdown_loop 0 n st w2 of
           Undefined f w' \<Rightarrow> Undefined f w'
         | Returns status' w3 \<Rightarrow>
             if status' \<noteq> 0 then
               (case cluster_free_request (response w3) w3 of
                  Undefined f w' \<Rightarrow> Undefined f w'
                | Returns r w4 \<Rightarrow>
                    Returns status' (w4\<lparr>num_responses := 0, errno := errno w3\<rparr>))
             else Returns status' w3)"
      unfolding lock_for_cluster_def w2_def Let_def
      using assms la Returns r
      by (auto simp: cmd_def[symmetric] len_def[symmetric] args_def[symmetric] Let_def)
    have w2w: "written (trace w2) = written (trace w1)" by (simp add: w2_def)
    show ?thesis
    proof (cases "hostdown_loop 0 n st w2")
      case (Undefined f w')
      then show ?thesis
        using hl w2w Returns
        by (simp add: eq cmd_def[symmetric] len_def[symmetric] args_def[symmetric])
    next
      case h: (Returns status' w3)
      have w3: "written (trace w3) = written (trace w1)" using hl h w2w by simp
      have "same_statics w3 (world_of (cluster_free_request (response w3) w3))"
        by (rule cluster_free_request_statics)
      then show ?thesis
        using h w3 Returns
        by (cases "cluster_free_request (response w3) w3")
           (auto simp: eq same_statics_def cmd_def[symmetric] len_def[symmetric] args_def[symmetric])
    qed
  qed
qed

lemma lock_args_bytes:
  "lock_args scope name = (int (length (name_bytes name)) + 2, scope # name_bytes name @ [NUL])"
  by (simp add: lock_args_def name_bytes_def split: option.splits)

lemma cluster_request_absent:
  "clvmd_sock w = - 1 \<Longrightarrow> opens w = Connect_fails fd e # rest \<Longrightarrow>
   cluster_request cmd node data len w
     = Returns (- 1, None, 0)
         (w\<lparr>opens := rest, trace := trace w @ [Ev_socket, Ev_connect fd, Ev_close fd],
            errno := e\<rparr>)"
  by (cases w) (simp add: cluster_request_def open_local_sock_def Let_def)

lemma lock_for_cluster_absent:
  assumes "clvmd_sock w = - 1" "opens w = Connect_fails fd e # rest" "response w = NULL"
    and "scope = CHR ''V'' \<or> scope = CHR ''L'' \<or> scope = CHR ''G''"
  shows "lock_for_cluster scope name suspend w
     = Returns (- 1)
         (w\<lparr>opens := rest, trace := trace w @ [Ev_socket, Ev_connect fd, Ev_close fd],
            errno := e, num_responses := 0\<rparr>)"
proof -
  obtain len args where la: "lock_args scope name = (len, args)"
    by (cases "lock_args scope name") auto
  show ?thesis
    using assms la
    by (cases w)
       (auto simp: lock_for_cluster_def cluster_request_absent hostdown_loop.simps
          cluster_free_request_def Let_def)
qed

lemma hostdown_loop_errno:
  "hostdown_loop i n st w = Returns st' w' \<Longrightarrow> errno w' = errno w"
  using hostdown_loop_world[of i n st w] by auto

subsection \<open>The arguments of a lock request\<close>

text \<open>
  C2, as the claim states it, fails: for scope \<open>V\<close> and name \<open>vg01\<close> the
  argument bytes of the request are not the scope, a NUL, the name and a NUL, and their
  number is not the length of the name plus 3.
\<close>

theorem lock_payload_counterexample:
  "\<not> (\<exists>b. sent three_nodes (world_of (lock_for_cluster CHR ''V'' (Some ''vg01'') 0 three_nodes))
            = [b]
          \<and> payload b = CHR ''V'' # NUL # ''vg01'' @ [NUL]
          \<and> int (length (payload b)) = int (length ''vg01'') + 3)"
proof -
  have "sent three_nodes partly_locked
      = [\<lparr>h_cmd = CLVMD_CMD_LOCK, h_status = 0, h_flags = {}, h_clientid = 0,
           h_arglen = 6, h_node = NUL # ''Vvg01'' @ [NUL]\<rparr>]"
    by (simp add: sent_def partly_locked_world) (simp add: three_nodes_def start_def)
  then show ?thesis
    unfolding partly_locked_def[symmetric] by (simp add: payload_def wire_node_def)
qed

text \<open>
  C2, amended: for every valid scope and every name, \<^verbatim>\<open>NULL\<close> included, a lock
  over a socket that is open or opens writes exactly one request, a broadcast, whose
  argument bytes are the scope character, then the name, then one NUL; the argument
  length in the header is the length of the name plus 2 (2 for \<^verbatim>\<open>NULL\<close>), and
  that many bytes are there.
\<close>

theorem lock_payload:
  assumes scope: "scope = CHR ''V'' \<or> scope = CHR ''L'' \<or> scope = CHR ''G''"
    and conn: "clvmd_sock w \<noteq> - 1 \<or> (\<exists>fd rest. opens w = Connects fd # rest)"
  shows "\<exists>b. sent w (world_of (lock_for_cluster scope name suspend w)) = [b]
           \<and> wire_node b = []
           \<and> payload b = scope # name_bytes name @ [NUL]
           \<and> h_arglen b = int (length (name_bytes name)) + 2
           \<and> int (length (payload b)) = h_arglen b"
proof -
  have "sent w (world_of (lock_for_cluster scope name suspend w))
      = [request_buffer (if suspend \<noteq> 0 then CLVMD_CMD_LOCK_SUSPEND else CLVMD_CMD_LOCK) []
           (snd (lock_args scope name)) (fst (lock_args scope name))]"
    using cluster_request_sent[OF conn] lock_for_cluster_written[OF scope]
    by (simp add: sent_def)
  then show ?thesis
    by (simp add: lock_args_bytes request_buffer_def build_header_def wire_node_def payload_def
          Let_def)
qed

theorem lock_payload_witness:
  "\<exists>b. sent three_nodes (world_of (lock_for_cluster CHR ''V'' (Some ''vg01'') 0 three_nodes)) = [b]
       \<and> wire_node b = []
       \<and> payload b = ''Vvg01'' @ [NUL]
       \<and> h_arglen b = 6
       \<and> int (length (payload b)) = h_arglen b"
  using lock_payload[of "CHR ''V''" three_nodes "Some ''vg01''" 0]
  by (simp add: three_nodes_def start_def name_bytes_def)

subsection \<open>errno after a failed lock\<close>

text \<open>
  C10: with a scope that is not valid, \<^verbatim>\<open>lock_for_cluster\<close> returns -1 with
  \<open>errno = EINVAL\<close> and does nothing else.  When, called with a valid scope, it
  returns a status other than zero, \<open>errno\<close> is what \<^verbatim>\<open>cluster_request\<close>
  left, whatever \<^verbatim>\<open>cluster_free_request\<close> did to it in between, and
  \<^verbatim>\<open>num_responses\<close> is zero.  In particular, when the socket is closed, no
  response array has been stored yet and \<^verbatim>\<open>connect\<close> fails with \<open>errno = e\<close>,
  the lock returns -1 with \<open>errno = e\<close>, although freeing the stored pointer once
  more would set \<open>EINVAL\<close>.
\<close>

theorem lock_for_cluster_keeps_errno:
  assumes scope: "scope = CHR ''V'' \<or> scope = CHR ''L'' \<or> scope = CHR ''G''"
  shows "(other \<noteq> CHR ''V'' \<and> other \<noteq> CHR ''L'' \<and> other \<noteq> CHR ''G'' \<longrightarrow>
            lock_for_cluster other name suspend w = Returns (- 1) (w\<lparr>errno := EINVAL\<rparr>))
         \<and> (lock_for_cluster scope name suspend w = Returns st w' \<and> st \<noteq> 0 \<longrightarrow>
           (\<exists>r w1. cluster_request
                      (if suspend \<noteq> 0 then CLVMD_CMD_LOCK_SUSPEND else CLVMD_CMD_LOCK) []
                      (snd (lock_args scope name)) (fst (lock_args scope name)) w
                    = Returns r w1
                  \<and> errno w' = errno w1 \<and> num_responses w' = 0))
         \<and> (clvmd_sock w = - 1 \<and> opens w = Connect_fails fd e # rest \<and> response w = NULL \<longrightarrow>
               (\<exists>w''. lock_for_cluster scope name suspend w = Returns (- 1) w''
                     \<and> errno w'' = e
                     \<and> cluster_free_request (response w'') w''
                         = Returns (- 1) (w''\<lparr>errno := EINVAL\<rparr>)))"
proof (intro conjI impI)
  assume "other \<noteq> CHR ''V'' \<and> other \<noteq> CHR ''L'' \<and> other \<noteq> CHR ''G''"
  then show "lock_for_cluster other name suspend w = Returns (- 1) (w\<lparr>errno := EINVAL\<rparr>)"
    by (simp add: lock_for_cluster_def)
next
  assume a: "lock_for_cluster scope name suspend w = Returns st w' \<and> st \<noteq> 0"
  define cmd where "cmd = (if suspend \<noteq> 0 then CLVMD_CMD_LOCK_SUSPEND else CLVMD_CMD_LOCK)"
  define len where "len = fst (lock_args scope name)"
  define args where "args = snd (lock_args scope name)"
  have la: "lock_args scope name = (len, args)" by (simp add: len_def args_def)
  have eq: "lock_for_cluster scope name suspend w =
      (case cluster_request cmd [] args len w of
         Undefined f w' \<Rightarrow> Undefined f w'
       | Returns (status, resp, num) w1 \<Rightarrow>
           (case hostdown_loop 0
                   (num_responses (w1\<lparr>num_responses := num,
                       response := (case resp of None \<Rightarrow> response w1 | Some p \<Rightarrow> p)\<rparr>))
                   status
                   (w1\<lparr>num_responses := num,
                       response := (case resp of None \<Rightarrow> response w1 | Some p \<Rightarrow> p)\<rparr>) of
              Undefined f w' \<Rightarrow> Undefined f w'
            | Returns status' w3 \<Rightarrow>
                if status' \<noteq> 0 then
                  (case cluster_free_request (response w3) w3 of
                     Undefined f w' \<Rightarrow> Undefined f w'
                   | Returns r w4 \<Rightarrow>
                       Returns status' (w4\<lparr>num_responses := 0, errno := errno w3\<rparr>))
                else Returns status' w3))"
    unfolding lock_for_cluster_def Let_def cmd_def
    using scope la by auto
  from a obtain r w1 where cr: "cluster_request cmd [] args len w = Returns r w1"
    by (auto simp: eq split: outcome.splits)
  obtain status resp num where r: "r = (status, resp, num)" by (cases r) auto
  define w2 where "w2 = w1\<lparr>num_responses := num,
      response := (case resp of None \<Rightarrow> response w1 | Some p \<Rightarrow> p)\<rparr>"
  from a cr r obtain w3 where hl: "hostdown_loop 0 num status w2 = Returns st w3"
    by (auto simp: eq w2_def split: outcome.splits if_splits)
  have e3: "errno w3 = errno w1" using hostdown_loop_errno[OF hl] by (simp add: w2_def)
  from a cr r hl obtain w4 where "w' = w4\<lparr>num_responses := 0, errno := errno w3\<rparr>"
    by (auto simp: eq w2_def[symmetric] split: outcome.splits)
  then have "errno w' = errno w1 \<and> num_responses w' = 0" using e3 by simp
  then show "\<exists>r w1. cluster_request
                      (if suspend \<noteq> 0 then CLVMD_CMD_LOCK_SUSPEND else CLVMD_CMD_LOCK) []
                      (snd (lock_args scope name)) (fst (lock_args scope name)) w
                    = Returns r w1
                  \<and> errno w' = errno w1 \<and> num_responses w' = 0"
    using cr unfolding cmd_def len_def args_def by (intro exI[of _ r] exI[of _ w1]) simp
next
  assume "clvmd_sock w = - 1 \<and> opens w = Connect_fails fd e # rest \<and> response w = NULL"
  then show "\<exists>w''. lock_for_cluster scope name suspend w = Returns (- 1) w''
                     \<and> errno w'' = e
                     \<and> cluster_free_request (response w'') w''
                         = Returns (- 1) (w''\<lparr>errno := EINVAL\<rparr>)"
    using lock_for_cluster_absent[of w fd e rest scope name suspend] scope
    by (simp add: cluster_free_request_def)
qed

theorem lock_for_cluster_keeps_errno_witness:
  "(\<exists>w'. lock_for_cluster CHR ''V'' (Some ''vg01'') 0 daemon_absent = Returns (- 1) w'
          \<and> errno w' = ENOENT
          \<and> errno w' = errno (world_of (cluster_request CLVMD_CMD_LOCK []
                                 (''Vvg01'' @ [NUL]) 6 daemon_absent))
          \<and> cluster_free_request (response w') w' = Returns (- 1) (w'\<lparr>errno := EINVAL\<rparr>))
   \<and> lock_for_cluster CHR ''X'' (Some ''vg01'') 0 daemon_absent
         = Returns (- 1) (daemon_absent\<lparr>errno := EINVAL\<rparr>)"
proof -
  have a: "clvmd_sock daemon_absent = - 1
      \<and> opens daemon_absent = Connect_fails 3 ENOENT # [] \<and> response daemon_absent = NULL"
    by (simp add: daemon_absent_def start_def)
  note t = lock_for_cluster_keeps_errno[where scope = "CHR ''V''" and name = "Some ''vg01''"
      and suspend = 0 and w = daemon_absent and fd = 3 and e = ENOENT and rest = "[]"
      and other = "CHR ''X''"]
  obtain w' where l: "lock_for_cluster CHR ''V'' (Some ''vg01'') 0 daemon_absent = Returns (- 1) w'"
    and e: "errno w' = ENOENT"
    and c: "cluster_free_request (response w') w' = Returns (- 1) (w'\<lparr>errno := EINVAL\<rparr>)"
    using t[where st = 0 and w' = daemon_absent] a by auto
  show ?thesis
    using t[where st = "- 1" and w' = w'] l e c
    by (auto simp: lock_args_def)
qed

subsection \<open>Without a daemon\<close>

text \<open>
  C6, as the claim states it, fails: with no daemon, \<^verbatim>\<open>lock_vg\<close> called with
  suspend flag 0 calls \<^verbatim>\<open>suspend_lvs_in_vg\<close> with flag 1, not with the
  caller's flag.
\<close>

theorem lock_vg_suspend_flag_counterexample:
  "trace (world_of (lock_vg vg01 0 daemon_absent))
     = [Ev_socket, Ev_connect 3, Ev_close 3, Ev_suspend_lvs_in_vg vg01 1]
   \<and> Ev_suspend_lvs_in_vg vg01 0 \<notin> set (trace (world_of (lock_vg vg01 0 daemon_absent)))"
proof -
  have "lock_for_cluster CHR ''V'' (vg_name vg01) 0 (daemon_absent\<lparr>suspended := 0\<rparr>)
     = Returns (- 1)
         ((daemon_absent\<lparr>suspended := 0\<rparr>)\<lparr>opens := [],
            trace := trace (daemon_absent\<lparr>suspended := 0\<rparr>) @ [Ev_socket, Ev_connect 3, Ev_close 3],
            errno := ENOENT, num_responses := 0\<rparr>)"
    by (rule lock_for_cluster_absent) (simp_all add: daemon_absent_def start_def)
  then show ?thesis
    by (simp add: lock_vg_def suspend_lvs_in_vg_def daemon_absent_def start_def)
qed

text \<open>
  C6, amended: when the socket is closed, no response array has been stored yet and
  \<^verbatim>\<open>connect\<close> fails with \<open>ENOENT\<close>, \<^verbatim>\<open>lock_vg\<close> returns 0 with
  \<^verbatim>\<open>clustered\<close> zero, and what it does to the outside is one attempt to connect
  and one call \<^verbatim>\<open>suspend_lvs_in_vg(vg, 1)\<close>, the flag being 1 whatever the
  caller's suspend flag is; \<^verbatim>\<open>unlock_vg\<close> then returns 0 and does nothing but
  call \<^verbatim>\<open>activate_lvs_in_vg(vg)\<close> once.
\<close>

theorem lock_vg_daemon_absent:
  assumes "clvmd_sock w = - 1" and "opens w = Connect_fails fd ENOENT # rest"
    and "response w = NULL"
  shows "\<exists>w1. lock_vg vg suspend w = Returns 0 w1
           \<and> clustered w1 = 0
           \<and> trace w1 = trace w @ [Ev_socket, Ev_connect fd, Ev_close fd,
                                     Ev_suspend_lvs_in_vg vg 1]
           \<and> unlock_vg vg w1 = Returns 0 (w1\<lparr>trace := trace w1 @ [Ev_activate_lvs_in_vg vg]\<rparr>)"
  using assms
  by (simp add: lock_vg_def lock_for_cluster_absent[where fd = fd and e = ENOENT and rest = rest]
        unlock_vg_def suspend_lvs_in_vg_def activate_lvs_in_vg_def)

theorem lock_vg_daemon_absent_witness:
  "\<exists>w1. lock_vg vg01 0 daemon_absent = Returns 0 w1
       \<and> clustered w1 = 0
       \<and> trace w1 = [Ev_socket, Ev_connect 3, Ev_close 3, Ev_suspend_lvs_in_vg vg01 1]
       \<and> unlock_vg vg01 w1 = Returns 0 (w1\<lparr>trace := trace w1 @ [Ev_activate_lvs_in_vg vg01]\<rparr>)"
  using lock_vg_daemon_absent[of daemon_absent 3 "[]" vg01 0]
  by (simp add: daemon_absent_def start_def)

subsection \<open>A reply that ends early\<close>

text \<open>
  C3 does not hold of the code.  When the header announces nine argument bytes and the
  next read meets end of file, \<^verbatim>\<open>send_request\<close> returns 0 with the one byte it
  has.  When the header announces a hundred bytes and the connection ends after nine
  that hold one record, \<^verbatim>\<open>lock_for_cluster\<close> returns 0 and keeps that record.
\<close>

theorem send_request_truncated:
  "fst (send_request (request_buffer CLVMD_CMD_LOCK [] (''Vvg01'' @ [NUL]) 6) cut_off)
     = (0, 1, ''n'')
   \<and> (\<exists>w'. lock_for_cluster CHR ''V'' (Some ''vg01'') 0 truncating = Returns 0 w'
          \<and> num_responses w' = 1
          \<and> map r_node (stored w') = [''n1''])"
  by (simp add: cut_off_def truncating_def run_defs numeral_eq_Suc stored_def slots_of_def)

subsection \<open>Out of memory while unpacking\<close>

text \<open>
  C4 does not hold of the code.  When the allocation for the second response string
  fails, \<^verbatim>\<open>cluster_request\<close> returns -1 with \<open>errno = ENOMEM\<close> and
  has freed the array only: the first response string (address 3) and the raw reply
  (address 1) stay allocated, and the pointer written to \<^verbatim>\<open>*response\<close> is the
  freed array.
\<close>

theorem cluster_request_out_of_memory:
  "\<exists>w'. cluster_request CLVMD_CMD_LOCK [] (''Vvg01'' @ [NUL]) 6 short_of_memory
            = Returns (- 1, Some 2, 0) w'
        \<and> errno w' = ENOMEM
        \<and> freed (trace w') = [2]
        \<and> heap w' = [Some Reply_buffer, None, Some (Response_string (''ok'' @ [NUL]))]"
  by (simp add: short_of_memory_def run_defs numeral_eq_Suc)

subsection \<open>After an unlock\<close>

text \<open>
  C5 does not hold of the code.  After the unlock of a session that held two responses,
  \<^verbatim>\<open>num_responses\<close> is still 2 and \<^verbatim>\<open>response\<close> points to the freed
  array, so that the next unlock reads freed memory.  (No unlock over an open socket
  changes either variable: \<open>unlock_for_cluster_never_resets\<close>.)
\<close>

theorem unlock_keeps_count:
  "\<exists>w'. unlock_for_cluster CHR ''V'' (Some ''vg01'') 1 fully_locked = Returns 0 w'
        \<and> num_responses w' = 2
        \<and> lookup (heap w') (response w') = None
        \<and> unlock_for_cluster CHR ''V'' (Some ''vg01'') 1 w' = Undefined Read_dead_memory w'"
  by (simp add: fully_locked_world run_defs numeral_eq_Suc)

end
